theory Spec2Isabelle
  imports Main "HOL-Library.Sublist"
begin

section \<open>Process utilities of nuclide-commons/process.js\<close>

text \<open>
  A shallow embedding of the parts of \<^verbatim>\<open>modules/nuclide-commons/process.js\<close> that
  enumerate and terminate process trees and that turn the events of a spawned
  process into a stream of messages.

  JavaScript numbers that hold process ids are modelled by the type \<open>number\<close>:
  an integer, or \<open>NaN\<close> (what \<^verbatim>\<open>parseInt\<close> answers when there is no digit).
  Sizes and exit codes are integers. A string is the list of its UTF-16 code units
  and \<^verbatim>\<open>s.length\<close> is the length of the list; the type \<open>char\<close> holds the code units
  from U+0000 to U+00FF, each of them a character of its own.
\<close>

subsection \<open>Numbers\<close>

datatype number = NaN | Num int

text \<open>
  \<^verbatim>\<open>a === b\<close> on numbers: \<open>NaN\<close> is equal to nothing, itself included. A
  \<^verbatim>\<open>Map\<close> compares its keys with SameValueZero, where \<open>NaN\<close> equals \<open>NaN\<close>: that is
  the equality of HOL on \<open>number\<close>.
\<close>

definition strict_eq :: "number \<Rightarrow> number \<Rightarrow> bool" where
  "strict_eq a b = (a \<noteq> NaN \<and> a = b)"

subsection \<open>Killing one process: \<^verbatim>\<open>killPid\<close>\<close>

text \<open>
  A Node system error, reduced to its \<^verbatim>\<open>code\<close> (\<^verbatim>\<open>'ESRCH'\<close>, \<^verbatim>\<open>'EPERM'\<close>, ...) and message.
\<close>

record SystemError =
  code :: string
  message :: string

text \<open>
  \<^verbatim>\<open>process.kill(pid)\<close> is an operation of the operating system: from the state of the
  system and a pid it either returns or throws, and it leaves a new state. It is a
  parameter \<open>process_kill\<close> of the model.
  \<^verbatim>\<open>
  export function killPid(pid: number): void {
    try {
      process.kill(pid);
    } catch (err) {
      if (err.code !== 'ESRCH') {
        throw err;
      }
    }
  }
  \<close>
  The result is \<open>Inl err\<close> when \<^verbatim>\<open>killPid\<close> throws \<open>err\<close> and \<open>Inr ()\<close> when it returns.
\<close>

type_synonym 'os kill_fn = "'os \<Rightarrow> number \<Rightarrow> SystemError option \<times> 'os"

definition killPid :: "'os kill_fn \<Rightarrow> 'os \<Rightarrow> number \<Rightarrow> (SystemError + unit) \<times> 'os" where
  "killPid process_kill os p =
     (case process_kill os p of
        (None, os') \<Rightarrow> (Inr (), os')
      | (Some err, os') \<Rightarrow>
          (if code err \<noteq> ''ESRCH'' then (Inl err, os') else (Inr (), os')))"

subsection \<open>Killing a tree on Windows: \<^verbatim>\<open>killWindowsProcessTree\<close>\<close>

text \<open>
  \<^verbatim>\<open>
  function killWindowsProcessTree(pid: number): Promise<void> {
    return new Promise((resolve, reject) => {
      child_process.exec(`taskkill /pid ${pid} /T /F`, error => {
        if (error == null) {
          reject(error);
        } else {
          resolve();
        }
      });
    });
  }
  \<close>
  \<^verbatim>\<open>child_process.exec\<close> runs the command and calls the callback once, with the error
  of the command or with \<^verbatim>\<open>null\<close>. The parameter \<open>exec\<close> gives that argument for a command
  line; the promise settles as the callback says.
\<close>

datatype 'e promise = Resolved | Rejected "'e option"

definition taskkill_command :: "string \<Rightarrow> string" where
  "taskkill_command pidText = ''taskkill /pid '' @ pidText @ '' /T /F''"

definition killWindowsProcessTree :: "(string \<Rightarrow> 'e option) \<Rightarrow> string \<Rightarrow> 'e promise" where
  "killWindowsProcessTree exec pidText =
     (let error = exec (taskkill_command pidText)
      in if error = None then Rejected error else Resolved)"


subsection \<open>The process table and the descendants of a process\<close>

text \<open>
  \<^verbatim>\<open>
  export type ProcessInfo = {
    parentPid: number,
    pid: number,
    command: string,
    commandWithArgs: string,
  };
  \<close>
\<close>

record ProcessInfo =
  parentPid :: number
  pid :: number
  command :: string
  commandWithArgs :: string

text \<open>
  \<^verbatim>\<open>
  export function parsePsOutput(psOutput: string, argsOutput: ?string): Array<ProcessInfo> {
    // Remove the first header line.
    const lines = psOutput.trim().split(/\n|\r\n/).slice(1);

    let withArgs = new Map();
    if (argsOutput != null) {
      withArgs = new Map(
        argsOutput.trim().split(/\n|\r\n/).slice(1).map(line => {
          const columns = line.trim().split(/\s+/);
          const pid = parseInt(columns[0], 10);
          const command = columns.slice(1).join(' ');
          return [pid, command];
        }),
      );
    }

    return lines.map(line => {
      const columns = line.trim().split(/\s+/);
      const [parentPid, pidStr] = columns;
      const pid = parseInt(pidStr, 10);
      const command = columns.slice(2).join(' ');
      const commandWithArgs = withArgs.get(pid);

      return {
        command,
        parentPid: parseInt(parentPid, 10),
        pid,
        commandWithArgs: commandWithArgs == null ? command : commandWithArgs,
      };
    });
  }
  \<close>
  The operations on strings that it uses come first. White space is the white space of
  JavaScript among the characters up to U+00FF: tab, line feed, vertical tab, form
  feed, carriage return, space and the no-break space U+00A0. \<open>trim\<close> is \<^verbatim>\<open>s.trim()\<close>;
  \<open>split_newlines []\<close> is \<^verbatim>\<open>s.split(/\n|\r\n/)\<close> and \<open>split_spaces []\<close> is
  \<^verbatim>\<open>s.split(/\s+/)\<close>, the first argument being the piece read so far; \<open>parseInt\<close> is
  \<^verbatim>\<open>parseInt(str, 10)\<close>, on a string or on \<^verbatim>\<open>undefined\<close>: white space, a sign, then digits
  as far as they go, \<open>NaN\<close> without a digit (the rounding of integers beyond
  \<open>2\<^sup>5\<^sup>3\<close> is left out); \<open>column columns i\<close> is \<^verbatim>\<open>columns[i]\<close>; \<open>join\<close> is
  \<^verbatim>\<open>columns.join(sep)\<close>. The \<^verbatim>\<open>Map\<close> built from the array of pairs answers, for a key, the
  value of the last pair with that key.
\<close>

definition isSpace :: "char \<Rightarrow> bool" where
  "isSpace c =
     (c \<in> set [CHR '' '', CHR 0x09, CHR 0x0A, CHR 0x0B, CHR 0x0C, CHR 0x0D, CHR 0xA0])"

definition isDigit :: "char \<Rightarrow> bool" where
  "isDigit c = (48 \<le> (of_char c :: nat) \<and> (of_char c :: nat) \<le> 57)"

definition trim :: "string \<Rightarrow> string" where
  "trim s = rev (dropWhile isSpace (rev (dropWhile isSpace s)))"

fun split_newlines :: "string \<Rightarrow> string \<Rightarrow> string list" where
  "split_newlines current [] = [current]"
| "split_newlines current (c # cs) =
     (if c = CHR 0x0A then current # split_newlines [] cs
      else if c = CHR 0x0D \<and> cs \<noteq> [] \<and> hd cs = CHR 0x0A
           then current # split_newlines [] (tl cs)
      else split_newlines (current @ [c]) cs)"

function split_spaces :: "string \<Rightarrow> string \<Rightarrow> string list" where
  "split_spaces current [] = [current]"
| "split_spaces current (c # cs) =
     (if isSpace c then current # split_spaces [] (dropWhile isSpace cs)
      else split_spaces (current @ [c]) cs)"
  by pat_completeness auto
termination
  by (relation "measure (\<lambda>(current, s). length s)")
     (auto simp: length_dropWhile_le less_Suc_eq_le)

definition parseInt :: "string option \<Rightarrow> number" where
  "parseInt str =
     (case str of
        None \<Rightarrow> NaN
      | Some s \<Rightarrow>
          (let s1 = dropWhile isSpace s;
               negative = (s1 \<noteq> [] \<and> hd s1 = CHR ''-'');
               s2 = (if s1 \<noteq> [] \<and> (hd s1 = CHR ''-'' \<or> hd s1 = CHR ''+'') then tl s1 else s1);
               digits = takeWhile isDigit s2;
               n = foldl (\<lambda>a c. 10 * a + (of_char c - 48)) (0::int) digits
           in if digits = [] then NaN else Num (if negative then - n else n)))"

definition column :: "string list \<Rightarrow> nat \<Rightarrow> string option" where
  "column columns i = (if i < length columns then Some (columns ! i) else None)"

fun join :: "string \<Rightarrow> string list \<Rightarrow> string" where
  "join sep [] = []"
| "join sep [x] = x"
| "join sep (x # y # ys) = x @ sep @ join sep (y # ys)"

definition parse_args_line :: "string \<Rightarrow> number \<times> string" where
  "parse_args_line line =
     (let columns = split_spaces [] (trim line)
      in (parseInt (column columns 0), join '' '' (drop 1 columns)))"

definition parse_line :: "(number \<times> string) list \<Rightarrow> string \<Rightarrow> ProcessInfo" where
  "parse_line withArgs line =
     (let columns = split_spaces [] (trim line);
          pid' = parseInt (column columns 1);
          command' = join '' '' (drop 2 columns);
          commandWithArgs' = map_of (rev withArgs) pid'
      in \<lparr>parentPid = parseInt (column columns 0), pid = pid', command = command',
          commandWithArgs = (case commandWithArgs' of None \<Rightarrow> command' | Some c \<Rightarrow> c)\<rparr>)"

definition parsePsOutput :: "string \<Rightarrow> string option \<Rightarrow> ProcessInfo list" where
  "parsePsOutput psOutput argsOutput =
     (let lines = drop 1 (split_newlines [] (trim psOutput));
          withArgs = (case argsOutput of
                        None \<Rightarrow> []
                      | Some out \<Rightarrow> map parse_args_line (drop 1 (split_newlines [] (trim out))))
      in map (parse_line withArgs) lines)"

text \<open>
  Modelled from the spec: \<^verbatim>\<open>MultiMap\<close> of \<^verbatim>\<open>./collection\<close>, which is not among the
  sources. The spec calls it the parent\<open>\<rightarrow>\<close>children multimap: \<^verbatim>\<open>add(key, value)\<close> puts a
  value under a key, \<^verbatim>\<open>get(key)\<close> gives the values put under the key, none for a key that
  was never used. The values are kept in the order in which they were added. Every row
  of the process table is an object of its own, so no two values added here are the same
  object and none is dropped as a duplicate.
\<close>

type_synonym ('k, 'v) MultiMap = "'k \<Rightarrow> 'v list"

definition MultiMap_add :: "('k, 'v) MultiMap \<Rightarrow> 'k \<Rightarrow> 'v \<Rightarrow> ('k, 'v) MultiMap" where
  "MultiMap_add m k v = m(k := m k @ [v])"

definition MultiMap_get :: "('k, 'v) MultiMap \<Rightarrow> 'k \<Rightarrow> 'v list" where
  "MultiMap_get m k = m k"

text \<open>
  \<^verbatim>\<open>
  async function getDescendantsOfProcess(pid: number): Promise<Array<ProcessInfo>> {
    const processes = await psTree();
    let rootProcessInfo;
    const pidToChildren = new MultiMap();
    processes.forEach(info => {
      if (info.pid === pid) {
        rootProcessInfo = info;
      }
      pidToChildren.add(info.parentPid, info);
    });
    const descendants = rootProcessInfo == null ? [] : [rootProcessInfo];
    // Walk through the array, adding the children of the current element to the end. This
    // breadth-first traversal means that the elements will be sorted by depth.
    for (let i = 0; i < descendants.length; i++) {
      const info = descendants[i];
      const children = pidToChildren.get(info.pid);
      descendants.push(...Array.from(children));
    }
    return descendants;
  }
  \<close>
  The snapshot \<open>processes\<close> that \<^verbatim>\<open>psTree()\<close> answers is an argument of the model.
  \<open>index_step\<close> is the body of the \<^verbatim>\<open>forEach\<close>, on the pair of \<^verbatim>\<open>rootProcessInfo\<close> and
  \<^verbatim>\<open>pidToChildren\<close>. \<open>walk\<close> is the \<^verbatim>\<open>for\<close> loop; the array grows while the index runs
  over it, so the loop need not end, and \<open>None\<close> stands for a loop that never returns.
\<close>

definition index_step ::
  "number \<Rightarrow> ProcessInfo option \<times> (number, ProcessInfo) MultiMap \<Rightarrow> ProcessInfo
     \<Rightarrow> ProcessInfo option \<times> (number, ProcessInfo) MultiMap" where
  "index_step p st info =
     ((if strict_eq (pid info) p then Some info else fst st),
      MultiMap_add (snd st) (parentPid info) info)"

definition index_processes ::
  "ProcessInfo list \<Rightarrow> number \<Rightarrow> ProcessInfo option \<times> (number, ProcessInfo) MultiMap" where
  "index_processes processes p = foldl (index_step p) (None, \<lambda>_. []) processes"

partial_function (option) walk ::
  "(number, ProcessInfo) MultiMap \<Rightarrow> nat \<Rightarrow> ProcessInfo list \<Rightarrow> ProcessInfo list option" where
  "walk pidToChildren i descendants =
     (if i < length descendants
      then walk pidToChildren (Suc i)
             (descendants @ MultiMap_get pidToChildren (pid (descendants ! i)))
      else Some descendants)"

definition getDescendantsOfProcess :: "ProcessInfo list \<Rightarrow> number \<Rightarrow> ProcessInfo list option" where
  "getDescendantsOfProcess processes p =
     (case index_processes processes p of
        (rootProcessInfo, pidToChildren) \<Rightarrow>
          walk pidToChildren 0 (case rootProcessInfo of None \<Rightarrow> [] | Some r \<Rightarrow> [r]))"

subsection \<open>Killing a tree on Unix: \<^verbatim>\<open>killUnixProcessTree\<close>\<close>

text \<open>
  \<^verbatim>\<open>
  export async function killUnixProcessTree(proc: child_process$ChildProcess): Promise<void> {
    const descendants = await getDescendantsOfProcess(proc.pid);
    // Kill the processes, starting with those of greatest depth.
    for (const info of descendants.reverse()) {
      killPid(info.pid);
    }
  }
  \<close>
  \<open>kill_each\<close> is the loop. It answers the pids that were handed to \<^verbatim>\<open>process.kill\<close>, in
  that order, the error that ended the loop if \<^verbatim>\<open>killPid\<close> threw one (the promise is
  then rejected with it and the remaining processes are not signalled), and the state
  of the system afterwards.
\<close>

fun kill_each ::
  "'os kill_fn \<Rightarrow> 'os \<Rightarrow> ProcessInfo list \<Rightarrow> number list \<times> SystemError option \<times> 'os" where
  "kill_each process_kill os [] = ([], None, os)"
| "kill_each process_kill os (info # rest) =
     (case killPid process_kill os (pid info) of
        (Inl err, os') \<Rightarrow> ([pid info], Some err, os')
      | (Inr _, os') \<Rightarrow>
          (case kill_each process_kill os' rest of
             (signalled, thrown, os'') \<Rightarrow> (pid info # signalled, thrown, os'')))"

definition killUnixProcessTree ::
  "'os kill_fn \<Rightarrow> ProcessInfo list \<Rightarrow> 'os \<Rightarrow> number
     \<Rightarrow> (number list \<times> SystemError option \<times> 'os) option" where
  "killUnixProcessTree process_kill processes os procPid =
     (case getDescendantsOfProcess processes procPid of
        None \<Rightarrow> None
      | Some descendants \<Rightarrow> Some (kill_each process_kill os (rev descendants)))"

subsection \<open>Notions used to state the properties of the walk\<close>

text \<open>
  The rows whose parent is \<open>k\<close>, in the order of the table; the root that the
  \<^verbatim>\<open>forEach\<close> keeps (the last row whose pid is the one asked for); the rows one step
  below the rows of a list; and the rows \<open>n\<close> steps below: \<open>level m [r] n\<close> holds the
  rows at depth \<open>n\<close> under the root \<open>r\<close>.
\<close>

definition children :: "ProcessInfo list \<Rightarrow> number \<Rightarrow> ProcessInfo list" where
  "children processes k = filter (\<lambda>info. parentPid info = k) processes"

definition rootOf :: "ProcessInfo list \<Rightarrow> number \<Rightarrow> ProcessInfo option" where
  "rootOf ps p =
     (case filter (\<lambda>info. strict_eq (pid info) p) ps of [] \<Rightarrow> None | xs \<Rightarrow> Some (last xs))"

definition next_level :: "(number \<Rightarrow> ProcessInfo list) \<Rightarrow> ProcessInfo list \<Rightarrow> ProcessInfo list" where
  "next_level m L = concat (map (\<lambda>info. m (pid info)) L)"

fun level :: "(number \<Rightarrow> ProcessInfo list) \<Rightarrow> ProcessInfo list \<Rightarrow> nat \<Rightarrow> ProcessInfo list" where
  "level m L 0 = L"
| "level m L (Suc n) = level m (next_level m L) n"

text \<open>
  In a list of rows, every row but the first has its parent at an earlier place; read
  from the other end, every row but the last has its parent at a later place.
\<close>

definition parents_first :: "ProcessInfo list \<Rightarrow> bool" where
  "parents_first ds = (\<forall>j. 0 < j \<and> j < length ds \<longrightarrow> (\<exists>i<j. pid (ds ! i) = parentPid (ds ! j)))"

definition children_first :: "ProcessInfo list \<Rightarrow> bool" where
  "children_first ks =
     (\<forall>a. Suc a < length ks \<longrightarrow> (\<exists>b. a < b \<and> b < length ks \<and> pid (ks ! b) = parentPid (ks ! a)))"

text \<open>The depth of each place of the list that puts the levels one after the other.\<close>

definition depths :: "(nat \<Rightarrow> 'a list) \<Rightarrow> nat \<Rightarrow> nat list" where
  "depths f n = concat (map (\<lambda>k. replicate (length (f k)) k) [0..<n])"

text \<open>
  Four snapshots: the one of the spec (\<^verbatim>\<open>bash\<close>, pid 100, and its child \<^verbatim>\<open>node\<close>, pid
  200); a chain root \<open>\<rightarrow>\<close> A \<open>\<rightarrow>\<close> B; a root with the children A and C, where A has the
  child B and is listed with it before C; and a row that is its own parent, as the row
  of pid 0 is in the process tables that list it.
\<close>

definition ps_example :: "ProcessInfo list" where
  "ps_example =
     [\<lparr>parentPid = Num 1, pid = Num 100, command = ''bash'', commandWithArgs = ''bash''\<rparr>,
      \<lparr>parentPid = Num 100, pid = Num 200, command = ''node'', commandWithArgs = ''node''\<rparr>]"

definition chain_example :: "ProcessInfo list" where
  "chain_example =
     [\<lparr>parentPid = Num 1, pid = Num 10, command = ''root'', commandWithArgs = ''root''\<rparr>,
      \<lparr>parentPid = Num 10, pid = Num 20, command = ''A'', commandWithArgs = ''A''\<rparr>,
      \<lparr>parentPid = Num 20, pid = Num 30, command = ''B'', commandWithArgs = ''B''\<rparr>]"

definition fork_example :: "ProcessInfo list" where
  "fork_example =
     [\<lparr>parentPid = Num 1, pid = Num 10, command = ''root'', commandWithArgs = ''root''\<rparr>,
      \<lparr>parentPid = Num 10, pid = Num 11, command = ''A'', commandWithArgs = ''A''\<rparr>,
      \<lparr>parentPid = Num 11, pid = Num 13, command = ''B'', commandWithArgs = ''B''\<rparr>,
      \<lparr>parentPid = Num 10, pid = Num 12, command = ''C'', commandWithArgs = ''C''\<rparr>]"

definition self_parent_example :: "ProcessInfo list" where
  "self_parent_example =
     [\<lparr>parentPid = Num 0, pid = Num 0, command = ''kernel_task'',
       commandWithArgs = ''kernel_task''\<rparr>]"

text \<open>
  The output of \<^verbatim>\<open>ps -A -o ppid,pid,comm\<close> that holds the snapshot of the spec, and an
  output of \<^verbatim>\<open>ps -A -ww -o pid,args\<close> for the same processes.
\<close>

definition ps_text :: string where
  "ps_text = '' PPID   PID COMM\<newline>    1   100 bash\<newline>  100   200 node\<newline>''"

definition args_text :: string where
  "args_text = ''  PID ARGS\<newline>  100 bash -l\<newline>  200 node server.js --port 80\<newline>''"


section \<open>The output of a spawned process\<close>

subsection \<open>Messages, errors and options\<close>

text \<open>
  \<^verbatim>\<open>
  export type ProcessExitMessage = {kind: 'exit', exitCode: ?number, signal: ?string};
  export type ProcessMessage =
    | {kind: 'stdout', data: string}
    | {kind: 'stderr', data: string}
    | ProcessExitMessage;
  \<close>
  \<open>None\<close> stands for \<^verbatim>\<open>null\<close> and \<^verbatim>\<open>undefined\<close>.
\<close>

record ProcessExitMessage =
  exitCode :: "int option"
  signal :: "string option"

datatype ProcessMessage =
    stdout_message string
  | stderr_message string
  | exit_message ProcessExitMessage

text \<open>
  The two errors that the output stream raises by itself.
  \<open>ProcessExitError exitCode signal stderr stdout\<close> is
  \<^verbatim>\<open>new ProcessExitError(exitCode, signal, proc, stderr, stdout)\<close>; the command and the
  arguments that the constructor copies from \<^verbatim>\<open>proc.spawnargs\<close> are left out.
  \<open>MaxBufferExceededError streamName\<close> is \<^verbatim>\<open>new MaxBufferExceededError(streamName)\<close>.
\<close>

datatype ProcessError =
    ProcessExitError "int option" "string option" string "string option"
  | MaxBufferExceededError string

text \<open>
  The options that the functions below read:
  \<^verbatim>\<open>
  type GetOutputStreamOptions = {
    splitByLines?: ?boolean,
    maxBuffer?: ?number,
    exitErrorBufferSize?: ?number,
    isExitError?: ?(event: ProcessExitMessage) => boolean,
  };
  \<close>
  and, of \<^verbatim>\<open>CreateProcessStreamOptions\<close>, \<^verbatim>\<open>killTreeWhenDone\<close> and \<^verbatim>\<open>killTreeSignal\<close>.
  Numbers are integers here. \<open>no_options\<close> is the empty object \<^verbatim>\<open>{}\<close>.
\<close>

record ObserveProcessOptions =
  splitByLines :: "bool option"
  maxBuffer :: "int option"
  exitErrorBufferSize :: "int option"
  isExitError :: "(ProcessExitMessage \<Rightarrow> bool) option"
  killTreeWhenDone :: "bool option"
  killTreeSignal :: "string option"

definition no_options :: ObserveProcessOptions where
  "no_options = \<lparr>splitByLines = None, maxBuffer = None, exitErrorBufferSize = None,
     isExitError = None, killTreeWhenDone = None, killTreeSignal = None\<rparr>"

text \<open>
  \<^verbatim>\<open>idx(options, _ => _.x) || d\<close> on a number: \<open>d\<close> when the option is absent and when it
  is \<open>0\<close>, the only integer that is falsy.
\<close>

definition or_default :: "int option \<Rightarrow> int \<Rightarrow> int" where
  "or_default v d = (case v of None \<Rightarrow> d | Some n \<Rightarrow> if n = 0 then d else n)"

text \<open>
  \<^verbatim>\<open>
  // Node crashes if we allow buffers that are too large.
  const DEFAULT_MAX_BUFFER = 100 * 1024 * 1024;

  function isExitErrorDefault(exit: ProcessExitMessage): boolean {
    return exit.exitCode !== 0;
  }

  function isRealExit(event: {exitCode: ?number, signal: ?string}): boolean {
    // An exit signal from SIGUSR1 doesn't actually exit the process, so skip that.
    return event.signal !== 'SIGUSR1';
  }
  \<close>
\<close>

definition DEFAULT_MAX_BUFFER :: int where
  "DEFAULT_MAX_BUFFER = 100 * 1024 * 1024"

definition isExitErrorDefault :: "ProcessExitMessage \<Rightarrow> bool" where
  "isExitErrorDefault exit = (exitCode exit \<noteq> Some 0)"

definition isRealExit :: "ProcessExitMessage \<Rightarrow> bool" where
  "isRealExit event = (signal event \<noteq> Some ''SIGUSR1'')"

text \<open>\<^verbatim>\<open>idx(options, _ => _.isExitError) || isExitErrorDefault\<close>; a function is never falsy.\<close>

definition or_isExitErrorDefault :: "ObserveProcessOptions \<Rightarrow> ProcessExitMessage \<Rightarrow> bool" where
  "or_isExitErrorDefault options =
     (case isExitError options of None \<Rightarrow> isExitErrorDefault | Some f \<Rightarrow> f)"

subsection \<open>Operators on the streams of one process\<close>

text \<open>
  \<^verbatim>\<open>
  function limitBufferSize(stream, maxBuffer: ?number, streamName: string) {
    if (maxBuffer == null) {
      return stream;
    }
    return Observable.defer(() => {
      let totalSize = 0;
      return stream.do(data => {
        totalSize += data.length;
        if (totalSize > maxBuffer) {
          throw new MaxBufferExceededError(streamName);
        }
      });
    });
  }
  \<close>
  One value of the stream: from \<^verbatim>\<open>totalSize\<close> and the data, the error thrown or the new
  \<^verbatim>\<open>totalSize\<close>. Without \<^verbatim>\<open>maxBuffer\<close> the stream is handed on as it is and nothing is
  counted.
\<close>

definition limitBufferSize ::
  "int option \<Rightarrow> string \<Rightarrow> nat \<Rightarrow> string \<Rightarrow> ProcessError + nat" where
  "limitBufferSize maxBuffer' streamName totalSize data =
     (case maxBuffer' of
        None \<Rightarrow> Inr totalSize
      | Some limit \<Rightarrow>
          (let totalSize' = totalSize + length data
           in if int totalSize' > limit then Inl (MaxBufferExceededError streamName)
              else Inr totalSize'))"

text \<open>
  Modelled from the spec: \<^verbatim>\<open>splitStream\<close> of \<^verbatim>\<open>./observable\<close>, which is not among the
  sources. The spec has the bytes of a stream split into line-delimited chunks: a
  chunk goes out at each newline, with the newline, and carries what came since the
  chunk before; what is left without a newline when the stream ends goes out as a last
  chunk. \<open>splitStream_next\<close> takes the text kept so far and one value of the stream, and
  gives the chunks that go out and the text kept; \<open>splitStream_end\<close> is the end of the
  stream.
\<close>

fun splitStream_next :: "string \<Rightarrow> string \<Rightarrow> string list \<times> string" where
  "splitStream_next current [] = ([], current)"
| "splitStream_next current (c # cs) =
     (if c = CHR 0x0A
      then (case splitStream_next [] cs of (lines, rest) \<Rightarrow> ((current @ [c]) # lines, rest))
      else splitStream_next (current @ [c]) cs)"

definition splitStream_end :: "string \<Rightarrow> string list" where
  "splitStream_end current = (if current \<noteq> [] then [current] else [])"

text \<open>
  \<^verbatim>\<open>
  const chunk =
    idx(options, _ => _.splitByLines) === false ? x => x : splitStream;
  \<close>
\<close>

definition chunk_next :: "ObserveProcessOptions \<Rightarrow> string \<Rightarrow> string \<Rightarrow> string list \<times> string" where
  "chunk_next options current data =
     (if splitByLines options = Some False then ([data], current)
      else splitStream_next current data)"

definition chunk_end :: "ObserveProcessOptions \<Rightarrow> string \<Rightarrow> string list" where
  "chunk_end options current =
     (if splitByLines options = Some False then [] else splitStream_end current)"

text \<open>
  Modelled from the spec: \<^verbatim>\<open>takeWhileInclusive\<close> of \<^verbatim>\<open>./observable\<close>, which is not among
  the sources. The spec names it take-while-inclusive: the values of the stream go out
  as long as the predicate holds of them, the first value of which it does not hold
  goes out too, and the stream completes there. The values of a stream are a list here,
  in the order in which they go out.
\<close>

fun takeWhileInclusive :: "('a \<Rightarrow> bool) \<Rightarrow> 'a list \<Rightarrow> 'a list" where
  "takeWhileInclusive predicate [] = []"
| "takeWhileInclusive predicate (x # xs) =
     (if predicate x then x # takeWhileInclusive predicate xs else [x])"

text \<open>
  The operator \<^verbatim>\<open>scan\<close> of RxJS with a seed: one accumulated value goes out for each
  value that comes in. \<open>slice0 s e\<close> is \<^verbatim>\<open>s.slice(0, e)\<close>, where a negative \<open>e\<close> counts
  from the end of the string.
\<close>

fun scan :: "('b \<Rightarrow> 'a \<Rightarrow> 'b) \<Rightarrow> 'b \<Rightarrow> 'a list \<Rightarrow> 'b list" where
  "scan f acc [] = []"
| "scan f acc (x # xs) = f acc x # scan f (f acc x) xs"

definition slice0 :: "string \<Rightarrow> int \<Rightarrow> string" where
  "slice0 s e = (if e < 0 then take (nat (int (length s) + e)) s else take (nat e) s)"

text \<open>
  \<^verbatim>\<open>
  // Accumulate the first `exitErrorBufferSize` bytes of stderr so that we can give feedback about
  // about exit errors (then stop so we don't fill up memory with it).
  const accumulatedStderr = stderrEvents
    .scan(
      (acc, event) => (acc + event.data).slice(0, exitErrorBufferSize),
      '',
    )
    .startWith('')
    .let(takeWhileInclusive(acc => acc.length < exitErrorBufferSize));
  \<close>
  The values that \<^verbatim>\<open>accumulatedStderr\<close> sends out, for the data of the stderr events that
  come in. The list is never empty: it starts with the empty string.
\<close>

definition accumulatedStderr :: "int \<Rightarrow> string list \<Rightarrow> string list" where
  "accumulatedStderr exitErrorBufferSize' datas =
     takeWhileInclusive (\<lambda>acc. int (length acc) < exitErrorBufferSize')
       ([] # scan (\<lambda>acc data. slice0 (acc @ data) exitErrorBufferSize') [] datas)"

subsection \<open>What a process does\<close>

text \<open>
  The model takes what the child process does as an argument: the values that its
  stdout and stderr streams deliver, in the order in which they arrive, among them the
  \<^verbatim>\<open>'exit'\<close> event of the process if it arrives before the streams have ended; and then
  the \<^verbatim>\<open>'close'\<close> events of the process. Node emits \<^verbatim>\<open>'close'\<close> after the process has
  ended and its stdio streams have been closed, so both streams end after the listed
  data and before the first \<^verbatim>\<open>'close'\<close>; an \<^verbatim>\<open>'exit'\<close> that is not listed arrives in between.
  \<^verbatim>\<open>observeStream\<close> of \<^verbatim>\<open>./stream\<close> is not among the sources; it is taken to deliver
  the data of a stream as strings and to complete when the stream ends.
\<close>

datatype fd = Stdout | Stderr

datatype ProcessEvent = Data fd string | Exit ProcessExitMessage

record ProcessRun =
  events :: "ProcessEvent list"
  closes :: "ProcessExitMessage list"

subsection \<open>\<^verbatim>\<open>getOutputStream\<close>\<close>

text \<open>
  \<^verbatim>\<open>
  export function getOutputStream(proc, options, rest) {
    const chunk =
      idx(options, _ => _.splitByLines) === false ? x => x : splitStream;
    const maxBuffer = idx(options, _ => _.maxBuffer);
    const isExitError = idx(options, _ => _.isExitError) || isExitErrorDefault;
    const exitErrorBufferSize = idx(options, _ => _.exitErrorBufferSize) || 2000;
    return Observable.defer(() => {
      const stdoutEvents = chunk(
        limitBufferSize(observeStream(proc.stdout), maxBuffer, 'stdout'),
      ).map(data => ({kind: 'stdout', data}));
      const stderrEvents = chunk(
        limitBufferSize(observeStream(proc.stderr), maxBuffer, 'stderr'),
      )
        .map(data => ({kind: 'stderr', data}))
        .share();
      const accumulatedStderr = ...;
      const closeEvents = Observable.fromEvent(proc, 'close',
        (exitCode: ?number, signal: ?string) => ({kind: 'exit', exitCode, signal}))
        .filter(isRealExit)
        .take(1)
        .withLatestFrom(accumulatedStderr)
        .map(([event, stderr]) => {
          if (isExitError(event)) {
            throw new ProcessExitError(event.exitCode, event.signal, proc, stderr);
          }
          return event;
        })
        .publishReplay();
      const exitSub = closeEvents.connect();
      return Observable.merge(stdoutEvents, stderrEvents)
        .concat(closeEvents)
        .let(takeWhileInclusive(
          event => event.kind !== 'error' && event.kind !== 'exit'))
        .finally(() => { exitSub.unsubscribe(); });
    });
  }
  \<close>
  The merged stream of \<^verbatim>\<open>stdoutEvents\<close> and \<^verbatim>\<open>stderrEvents\<close> is a state machine over the
  events of the process. Its state holds, for each of the two streams, the
  \<^verbatim>\<open>totalSize\<close> of \<^verbatim>\<open>limitBufferSize\<close> and the text kept by \<^verbatim>\<open>chunk\<close>; the messages sent
  so far; whether the \<^verbatim>\<open>'exit'\<close> event of the process has been seen (\<^verbatim>\<open>finished\<close> in
  \<^verbatim>\<open>createProcessStream\<close>); and the error, once one of the two streams has thrown. An
  error ends the merged stream: later events change nothing.
\<close>

record mux =
  stdoutTotal :: nat
  stdoutCurrent :: string
  stderrTotal :: nat
  stderrCurrent :: string
  messages :: "ProcessMessage list"
  finished :: bool
  failure :: "ProcessError option"

definition mux_init :: mux where
  "mux_init = \<lparr>stdoutTotal = 0, stdoutCurrent = [], stderrTotal = 0, stderrCurrent = [],
     messages = [], finished = False, failure = None\<rparr>"

definition mux_step :: "ObserveProcessOptions \<Rightarrow> mux \<Rightarrow> ProcessEvent \<Rightarrow> mux" where
  "mux_step options st ev =
     (if failure st \<noteq> None then st
      else case ev of
        Exit event \<Rightarrow> (if isRealExit event then st\<lparr>finished := True\<rparr> else st)
      | Data Stdout data \<Rightarrow>
          (case limitBufferSize (maxBuffer options) ''stdout'' (stdoutTotal st) data of
             Inl err \<Rightarrow> st\<lparr>failure := Some err\<rparr>
           | Inr totalSize \<Rightarrow>
               (case chunk_next options (stdoutCurrent st) data of
                  (lines, current) \<Rightarrow>
                    st\<lparr>stdoutTotal := totalSize, stdoutCurrent := current,
                       messages := messages st @ map stdout_message lines\<rparr>))
      | Data Stderr data \<Rightarrow>
          (case limitBufferSize (maxBuffer options) ''stderr'' (stderrTotal st) data of
             Inl err \<Rightarrow> st\<lparr>failure := Some err\<rparr>
           | Inr totalSize \<Rightarrow>
               (case chunk_next options (stderrCurrent st) data of
                  (lines, current) \<Rightarrow>
                    st\<lparr>stderrTotal := totalSize, stderrCurrent := current,
                       messages := messages st @ map stderr_message lines\<rparr>)))"

text \<open>The data of the stdout messages and of the stderr messages of a list of messages.\<close>

fun stdout_data :: "ProcessMessage list \<Rightarrow> string list" where
  "stdout_data [] = []"
| "stdout_data (stdout_message d # ms) = d # stdout_data ms"
| "stdout_data (_ # ms) = stdout_data ms"

fun stderr_data :: "ProcessMessage list \<Rightarrow> string list" where
  "stderr_data [] = []"
| "stderr_data (stderr_message d # ms) = d # stderr_data ms"
| "stderr_data (_ # ms) = stderr_data ms"

text \<open>
  All the messages of the two streams once both have ended: the messages sent while
  the data arrived, and what \<^verbatim>\<open>chunk\<close> still kept of each stream.
\<close>

definition drained :: "ObserveProcessOptions \<Rightarrow> mux \<Rightarrow> ProcessMessage list" where
  "drained options st =
     messages st @ map stdout_message (chunk_end options (stdoutCurrent st))
       @ map stderr_message (chunk_end options (stderrCurrent st))"

text \<open>
  How a stream ends: it completes, it raises an error, or it stays open for ever (no
  \<^verbatim>\<open>'close'\<close> event passes \<^verbatim>\<open>isRealExit\<close>). The result of \<^verbatim>\<open>getOutputStream\<close> is the list
  of the messages it sends and the way it ends. When no stream has thrown, the merged
  stream completes and \<^verbatim>\<open>closeEvents\<close> follows: the first \<^verbatim>\<open>'close'\<close> event that passes
  \<^verbatim>\<open>isRealExit\<close>, with the latest value of \<^verbatim>\<open>accumulatedStderr\<close>, is thrown as a
  \<^verbatim>\<open>ProcessExitError\<close> or sent as the last message.
\<close>

datatype Terminal = Completed | Errored ProcessError | Pending

record Output =
  emitted :: "ProcessMessage list"
  terminal :: Terminal

definition getOutputStream :: "ObserveProcessOptions \<Rightarrow> ProcessRun \<Rightarrow> Output" where
  "getOutputStream options run =
     (let exitErrorBufferSize' = or_default (exitErrorBufferSize options) 2000;
          st = foldl (mux_step options) mux_init (events run)
      in case failure st of
           Some err \<Rightarrow> \<lparr>emitted = messages st, terminal = Errored err\<rparr>
         | None \<Rightarrow>
             (let msgs = drained options st;
                  stderr' = last (accumulatedStderr exitErrorBufferSize' (stderr_data msgs))
              in case filter isRealExit (closes run) of
                   [] \<Rightarrow> \<lparr>emitted = msgs, terminal = Pending\<rparr>
                 | event # _ \<Rightarrow>
                     (if or_isExitErrorDefault options event
                      then \<lparr>emitted = msgs,
                            terminal = Errored (ProcessExitError (exitCode event) (signal event)
                                                  stderr' None)\<rparr>
                      else \<lparr>emitted = msgs @ [exit_message event], terminal = Completed\<rparr>)))"

subsection \<open>\<^verbatim>\<open>observeProcess\<close>, \<^verbatim>\<open>runCommandDetailed\<close> and \<^verbatim>\<open>runCommand\<close>\<close>

text \<open>
  \<^verbatim>\<open>
  export function observeProcess(command, args, options) {
    return spawn(command, args, options).flatMap(proc =>
      getOutputStream(proc, options),
    );
  }
  export function observeProcessRaw(command, args, options) {
    return spawn(command, args, options).flatMap(proc =>
      getOutputStream(proc, {...options, splitByLines: false}),
    );
  }
  \<close>
  for a process that was spawned, with no \<^verbatim>\<open>timeout\<close> and a subscriber that stays: the
  messages and the end are those of \<^verbatim>\<open>getOutputStream\<close>. When the stream of
  \<^verbatim>\<open>getOutputStream\<close> raises an error, \<^verbatim>\<open>flatMap\<close> unsubscribes from the stream of
  \<^verbatim>\<open>spawn\<close>, whose \<^verbatim>\<open>finally\<close> runs in \<^verbatim>\<open>createProcessStream\<close>:
  \<^verbatim>\<open>
  .finally(() => {
    if (!proc.wasKilled && !finished) {
      killProcess(proc, Boolean(killTreeWhenDone), killTreeSignal);
    }
  });
  \<close>
  where \<^verbatim>\<open>finished\<close> was set if the \<^verbatim>\<open>'exit'\<close> event of the process had completed that
  stream before. \<open>killProcess\<close> holds the arguments of the call of \<^verbatim>\<open>killProcess\<close> if
  there is one, \<open>processExited\<close> the value of \<^verbatim>\<open>finished\<close>. An error raised from the
  \<^verbatim>\<open>'close'\<close> event comes after the \<^verbatim>\<open>'exit'\<close> event and calls nothing.
\<close>

record Observed = Output +
  killProcess :: "(bool \<times> string option) option"
  processExited :: bool

definition observeProcess :: "ObserveProcessOptions \<Rightarrow> ProcessRun \<Rightarrow> Observed" where
  "observeProcess options run =
     (let out = getOutputStream options run;
          st = foldl (mux_step options) mux_init (events run)
      in \<lparr>emitted = emitted out, terminal = terminal out,
          killProcess =
            (if failure st \<noteq> None \<and> \<not> finished st
             then Some (killTreeWhenDone options = Some True, killTreeSignal options)
             else None),
          processExited = finished st\<rparr>)"


text \<open>
  \<^verbatim>\<open>
  export function runCommandDetailed(command, args = [], options = {}, rest) {
    const maxBuffer = idx(options, _ => _.maxBuffer) || DEFAULT_MAX_BUFFER;
    return observeProcess(command, args, {...options, maxBuffer})
      .catch(error => {
        // Catch ProcessExitErrors so that we can add stdout to them.
        if (error instanceof ProcessExitError) {
          return Observable.of({kind: 'process-exit-error', error});
        }
        throw error;
      })
      .reduce(
        (acc, event) => {
          switch (event.kind) {
            case 'stdout':
              return {...acc, stdout: acc.stdout + event.data};
            case 'stderr':
              return {...acc, stderr: acc.stderr + event.data};
            case 'exit':
              return {...acc, exitCode: event.exitCode};
            case 'process-exit-error':
              const {error} = event;
              throw new ProcessExitError(
                error.exitCode, error.signal, error.process, acc.stderr, acc.stdout);
            ...
          }
        },
        {stdout: '', stderr: '', exitCode: null},
      );
  }
  export function runCommand(command, args = [], options = {}, rest) {
    return runCommandDetailed(command, args, options).map(event => event.stdout);
  }
  \<close>
  The field \<^verbatim>\<open>exitCode\<close> of the result is \<open>exitCode'\<close> here, the name being taken by the
  exit message. The stream of \<^verbatim>\<open>runCommandDetailed\<close> sends one value and completes,
  raises an error, or stays open.
\<close>

record DetailedProcessResult =
  stdout :: string
  stderr :: string
  exitCode' :: "int option"

datatype 'a Outcome = Emits 'a | Raises ProcessError | Never

definition reduce_step :: "DetailedProcessResult \<Rightarrow> ProcessMessage \<Rightarrow> DetailedProcessResult" where
  "reduce_step acc event =
     (case event of
        stdout_message data \<Rightarrow> acc\<lparr>stdout := stdout acc @ data\<rparr>
      | stderr_message data \<Rightarrow> acc\<lparr>stderr := stderr acc @ data\<rparr>
      | exit_message e \<Rightarrow> acc\<lparr>exitCode' := exitCode e\<rparr>)"

definition runCommandDetailed ::
  "ObserveProcessOptions \<Rightarrow> ProcessRun \<Rightarrow> DetailedProcessResult Outcome" where
  "runCommandDetailed options run =
     (let maxBuffer' = or_default (maxBuffer options) DEFAULT_MAX_BUFFER;
          out = observeProcess (options\<lparr>maxBuffer := Some maxBuffer'\<rparr>) run;
          acc = foldl reduce_step \<lparr>stdout = [], stderr = [], exitCode' = None\<rparr> (emitted out)
      in case terminal out of
           Completed \<Rightarrow> Emits acc
         | Pending \<Rightarrow> Never
         | Errored error \<Rightarrow>
             (case error of
                ProcessExitError code' signal' _ _ \<Rightarrow>
                  Raises (ProcessExitError code' signal' (stderr acc) (Some (stdout acc)))
              | _ \<Rightarrow> Raises error))"

definition runCommand :: "ObserveProcessOptions \<Rightarrow> ProcessRun \<Rightarrow> string Outcome" where
  "runCommand options run =
     (case runCommandDetailed options run of
        Emits event \<Rightarrow> Emits (stdout event)
      | Raises error \<Rightarrow> Raises error
      | Never \<Rightarrow> Never)"

subsection \<open>Notions used to state the properties of the streams\<close>

text \<open>
  What a process wrote to one of its streams, value by value, and how much that is
  (in the unit of \<^verbatim>\<open>data.length\<close>); whether both streams stay within a limit.
\<close>

fun produced :: "fd \<Rightarrow> ProcessEvent list \<Rightarrow> string list" where
  "produced s [] = []"
| "produced s (Data s' d # evs) = (if s' = s then d # produced s evs else produced s evs)"
| "produced s (Exit e # evs) = produced s evs"

definition amount :: "fd \<Rightarrow> ProcessEvent list \<Rightarrow> nat" where
  "amount s evs = length (concat (produced s evs))"

definition within_maxBuffer :: "int option \<Rightarrow> ProcessEvent list \<Rightarrow> bool" where
  "within_maxBuffer limit evs =
     (case limit of
        None \<Rightarrow> True
      | Some B \<Rightarrow> int (amount Stdout evs) \<le> B \<and> int (amount Stderr evs) \<le> B)"

text \<open>
  The number of bytes that a string takes in UTF-8, the encoding in which Node reads
  the output of a process: one byte for a character below U+0080 and two for a
  character from U+0080 to U+00FF. \<open>bytes_written\<close> is the number of bytes that a process
  wrote to a stream, \<open>amount\<close> the number of characters that they became.
\<close>

definition utf8_length :: "string \<Rightarrow> nat" where
  "utf8_length s = sum_list (map (\<lambda>c. if (of_char c :: nat) < 128 then 1 else 2) s)"

definition bytes_written :: "fd \<Rightarrow> ProcessEvent list \<Rightarrow> nat" where
  "bytes_written s evs = sum_list (map utf8_length (produced s evs))"

text \<open>
  The \<^verbatim>\<open>'exit'\<close> event of the process arrived before either stream had delivered more
  than \<open>B\<close>: the events start with events in which both streams stay within \<open>B\<close>
  (counted from \<open>out\<close> and \<open>err\<close>), followed by an \<^verbatim>\<open>'exit'\<close> event that passes
  \<^verbatim>\<open>isRealExit\<close>.
\<close>

definition exits_within :: "int \<Rightarrow> nat \<Rightarrow> nat \<Rightarrow> ProcessEvent list \<Rightarrow> bool" where
  "exits_within B out err evs =
     (\<exists>pre event rest. evs = pre @ Exit event # rest \<and> isRealExit event
        \<and> int (out + amount Stdout pre) \<le> B \<and> int (err + amount Stderr pre) \<le> B)"

definition exited_before_overflow :: "int \<Rightarrow> ProcessEvent list \<Rightarrow> bool" where
  "exited_before_overflow B evs = exits_within B 0 0 evs"

text \<open>
  Two facts about the state of the merged stream that hold all along: without
  \<^verbatim>\<open>splitByLines\<close> no text is kept; and the messages sent for a stream, followed by the
  text kept for it, are what the stream has delivered so far (\<open>seen\<close>).
\<close>

definition raw_inv :: "ObserveProcessOptions \<Rightarrow> mux \<Rightarrow> bool" where
  "raw_inv options st =
     (splitByLines options = Some False \<longrightarrow> stdoutCurrent st = [] \<and> stderrCurrent st = [])"

definition seen :: "fd \<Rightarrow> mux \<Rightarrow> string" where
  "seen s st = (case s of
       Stdout \<Rightarrow> concat (stdout_data (messages st)) @ stdoutCurrent st
     | Stderr \<Rightarrow> concat (stderr_data (messages st)) @ stderrCurrent st)"

text \<open>
  Six runs: the command of the spec, which writes \<^verbatim>\<open>"out\n"\<close> to stdout and
  \<^verbatim>\<open>"err\n"\<close> to stderr and exits with a given code; a command that writes
  \<^verbatim>\<open>"abc\n"\<close> to stderr and exits with code 1; a command that writes one byte more
  than 100 MiB to stdout and exits with code 0; a command that writes three times the
  letter e with an acute accent (U+00E9, six bytes) to stdout; a command whose \<^verbatim>\<open>'exit'\<close>
  event arrives before its output \<^verbatim>\<open>"out\n"\<close>; and a command that writes 2001 letters
  to stderr and exits with code 1.
\<close>

definition run_out_err :: "int option \<Rightarrow> ProcessRun" where
  "run_out_err code' =
     \<lparr>events = [Data Stdout ''out\<newline>'', Data Stderr ''err\<newline>''],
      closes = [\<lparr>exitCode = code', signal = None\<rparr>]\<rparr>"

definition run_abc :: ProcessRun where
  "run_abc = \<lparr>events = [Data Stderr ''abc\<newline>''],
              closes = [\<lparr>exitCode = Some 1, signal = None\<rparr>]\<rparr>"

definition run_large :: ProcessRun where
  "run_large =
     \<lparr>events = [Data Stdout (replicate 104857601 (CHR ''a''))],
      closes = [\<lparr>exitCode = Some 0, signal = None\<rparr>]\<rparr>"

definition run_accents :: ProcessRun where
  "run_accents = \<lparr>events = [Data Stdout [CHR 0xE9, CHR 0xE9, CHR 0xE9]],
                  closes = [\<lparr>exitCode = Some 0, signal = None\<rparr>]\<rparr>"

definition run_exit_first :: ProcessRun where
  "run_exit_first =
     \<lparr>events = [Exit \<lparr>exitCode = Some 0, signal = None\<rparr>, Data Stdout ''out\<newline>''],
      closes = [\<lparr>exitCode = Some 0, signal = None\<rparr>]\<rparr>"

definition run_long_stderr :: ProcessRun where
  "run_long_stderr =
     \<lparr>events = [Data Stderr (replicate 2001 (CHR ''x''))],
      closes = [\<lparr>exitCode = Some 1, signal = None\<rparr>]\<rparr>"


section \<open>Killing processes\<close>

text \<open>
  C8. A termination attempt against a process id that no longer exists is not an
  error: \<^verbatim>\<open>killPid\<close> returns normally when \<^verbatim>\<open>process.kill\<close> succeeds and when it fails
  with the code \<^verbatim>\<open>ESRCH\<close>, and it throws the error of \<^verbatim>\<open>process.kill\<close> again for every
  other code. In each case the system is left as \<^verbatim>\<open>process.kill\<close> left it.
\<close>

theorem killPid_swallows_only_ESRCH:
  "(process_kill os p = (None, os') \<longrightarrow> killPid process_kill os p = (Inr (), os')) \<and>
   (process_kill os p = (Some err, os') \<and> code err = ''ESRCH'' \<longrightarrow>
      killPid process_kill os p = (Inr (), os')) \<and>
   (process_kill os p = (Some err, os') \<and> code err \<noteq> ''ESRCH'' \<longrightarrow>
      killPid process_kill os p = (Inl err, os'))"
  by (simp add: killPid_def)

theorem killPid_swallows_only_ESRCH_witness:
  "killPid (\<lambda>os p. (None, Suc os)) (0::nat) (Num 7) = (Inr (), 1) \<and>
   killPid (\<lambda>os p. (Some \<lparr>code = ''ESRCH'', message = ''kill ESRCH''\<rparr>, os)) (0::nat) (Num 7)
     = (Inr (), 0) \<and>
   killPid (\<lambda>os p. (Some \<lparr>code = ''EPERM'', message = ''kill EPERM''\<rparr>, os)) (0::nat) (Num 7)
     = (Inl \<lparr>code = ''EPERM'', message = ''kill EPERM''\<rparr>, 0)"
  using killPid_swallows_only_ESRCH [where process_kill = "\<lambda>os p. (None, Suc os)"
      and os = "0::nat" and p = "Num 7" and os' = 1]
    killPid_swallows_only_ESRCH [where
      process_kill = "\<lambda>os p. (Some \<lparr>code = ''ESRCH'', message = ''kill ESRCH''\<rparr>, os)"
      and os = "0::nat" and p = "Num 7"
      and err = "\<lparr>code = ''ESRCH'', message = ''kill ESRCH''\<rparr>" and os' = 0]
    killPid_swallows_only_ESRCH [where
      process_kill = "\<lambda>os p. (Some \<lparr>code = ''EPERM'', message = ''kill EPERM''\<rparr>, os)"
      and os = "0::nat" and p = "Num 7"
      and err = "\<lparr>code = ''EPERM'', message = ''kill EPERM''\<rparr>" and os' = 0]
  by simp

text \<open>
  C9. The promise of \<^verbatim>\<open>killWindowsProcessTree\<close> resolves exactly when the callback of
  the kill command receives an error that is not \<^verbatim>\<open>null\<close>, and it rejects (with that
  \<^verbatim>\<open>null\<close>) when the error is \<^verbatim>\<open>null\<close>.
\<close>

theorem killWindowsProcessTree_inverted:
  "(killWindowsProcessTree exec pidText = Resolved) = (exec (taskkill_command pidText) \<noteq> None) \<and>
   (killWindowsProcessTree exec pidText = Rejected None) = (exec (taskkill_command pidText) = None)"
  by (simp add: killWindowsProcessTree_def Let_def)


section \<open>The walk over the process table\<close>

lemma index_processes_snoc:
  "index_processes (ps @ [x]) p = index_step p (index_processes ps p) x"
  by (simp add: index_processes_def)

lemma index_children: "snd (index_processes ps p) = children ps"
proof (induction ps rule: rev_induct)
  case Nil
  show ?case by (simp add: index_processes_def children_def fun_eq_iff)
next
  case (snoc x xs)
  then show ?case
    by (auto simp: index_processes_snoc index_step_def MultiMap_add_def children_def fun_eq_iff)
qed

lemma index_root: "fst (index_processes ps p) = rootOf ps p"
proof (induction ps rule: rev_induct)
  case Nil
  show ?case by (simp add: index_processes_def rootOf_def)
next
  case (snoc x xs)
  then show ?case
    by (auto simp: index_processes_snoc index_step_def rootOf_def split: list.splits)
qed

lemma walk_level_step:
  "walk m (length pre) (pre @ L @ acc)
     = walk m (length pre + length L) (pre @ L @ acc @ next_level m L)"
proof (induction L arbitrary: pre acc)
  case Nil
  show ?case by (simp add: next_level_def)
next
  case (Cons x L)
  have "walk m (length pre) (pre @ (x # L) @ acc)
          = walk m (Suc (length pre)) ((pre @ (x # L) @ acc) @ m (pid x))"
    by (subst walk.simps) (simp add: MultiMap_get_def nth_append)
  also have "\<dots> = walk m (length (pre @ [x])) ((pre @ [x]) @ L @ (acc @ m (pid x)))"
    by simp
  also have "\<dots> = walk m (length (pre @ [x]) + length L)
                    ((pre @ [x]) @ L @ (acc @ m (pid x)) @ next_level m L)"
    by (rule Cons.IH)
  finally show ?case by (simp add: next_level_def)
qed

lemma walk_level:
  "walk m (length pre) (pre @ L) = walk m (length (pre @ L)) ((pre @ L) @ next_level m L)"
  using walk_level_step [of m pre L "[]"] by simp

lemma levels_shift:
  "concat (map (level m L) [0..<Suc n]) = L @ concat (map (level m (next_level m L)) [0..<n])"
proof -
  have "[0..<Suc n] = 0 # map Suc [0..<n]"
    unfolding map_Suc_upt by (rule upt_conv_Cons) simp
  then have "map (level m L) [0..<Suc n] = level m L 0 # map (level m L \<circ> Suc) [0..<n]"
    by (simp only: list.map map_map)
  then show ?thesis by (simp add: comp_def)
qed

lemma walk_returns:
  "level m L n = [] \<Longrightarrow>
   walk m (length pre) (pre @ L) = Some (pre @ concat (map (level m L) [0..<n]))"
proof (induction n arbitrary: pre L)
  case 0
  then show ?case by (subst walk.simps) simp
next
  case (Suc n)
  from Suc.prems have e: "level m (next_level m L) n = []" by simp
  have "walk m (length pre) (pre @ L) = walk m (length (pre @ L)) ((pre @ L) @ next_level m L)"
    by (rule walk_level)
  also have "\<dots> = Some ((pre @ L) @ concat (map (level m (next_level m L)) [0..<n]))"
    by (rule Suc.IH [OF e])
  finally show ?case by (simp only: levels_shift append_assoc)
qed


lemma next_level_append: "next_level m (A @ B) = next_level m A @ next_level m B"
  by (simp add: next_level_def)

lemma level_append: "level m (A @ B) n = level m A n @ level m B n"
proof (induction n arbitrary: A B)
  case 0
  show ?case by simp
next
  case (Suc n)
  have "level m (A @ B) (Suc n) = level m (next_level m A @ next_level m B) n"
    by (simp only: level.simps next_level_append)
  also have "\<dots> = level m (next_level m A) n @ level m (next_level m B) n"
    by (rule Suc.IH)
  finally show ?case by (simp only: level.simps)
qed

lemma level_Nil: "level m [] n = []"
  by (induction n) (simp_all add: next_level_def)

lemma level_empty_mono: "level m L n = [] \<Longrightarrow> n \<le> k \<Longrightarrow> level m L k = []"
proof (induction n arbitrary: L k)
  case 0
  then show ?case by (simp add: level_Nil)
next
  case (Suc n)
  from Suc.prems(2) obtain k' where k: "k = Suc k'" and le: "n \<le> k'" by (cases k) simp_all
  from Suc.prems(1) have "level m (next_level m L) n = []" by simp
  from Suc.IH [OF this le] show ?case by (simp add: k)
qed

lemma walk_finite_depth:
  "walk m i ds = Some y \<Longrightarrow> \<exists>n. level m (drop i ds) n = []"
proof (induction m i ds y rule: walk.raw_induct [rotated 1, consumes 1])
  case (1 walk' m i ds y)
  show ?case
  proof (cases "i < length ds")
    case False
    then have "level m (drop i ds) 0 = []" by simp
    then show ?thesis ..
  next
    case True
    with 1(2) have "walk' m (Suc i) (ds @ MultiMap_get m (pid (ds ! i))) = Some y" by simp
    from 1(1) [OF this] obtain n where
      n: "level m (drop (Suc i) (ds @ MultiMap_get m (pid (ds ! i)))) n = []" ..
    from True have d: "drop i ds = ds ! i # drop (Suc i) ds"
      by (simp add: Cons_nth_drop_Suc)
    from True n have a: "level m (drop (Suc i) ds) n = []" and b: "level m (m (pid (ds ! i))) n = []"
      by (simp_all add: level_append MultiMap_get_def)
    from a have a': "level m (drop (Suc i) ds) (Suc n) = []"
      by (rule level_empty_mono) simp
    have "next_level m (drop i ds) = m (pid (ds ! i)) @ next_level m (drop (Suc i) ds)"
      by (simp add: d next_level_def)
    then have "level m (drop i ds) (Suc n) = []"
      using a' b by (simp add: level_append)
    then show ?thesis ..
  qed
qed

lemma parents_first_append:
  assumes "parents_first ds" "i < length ds" "\<forall>c \<in> set cs. parentPid c = pid (ds ! i)"
  shows "parents_first (ds @ cs)"
  unfolding parents_first_def
proof (intro allI impI)
  fix j assume j: "0 < j \<and> j < length (ds @ cs)"
  show "\<exists>k<j. pid ((ds @ cs) ! k) = parentPid ((ds @ cs) ! j)"
  proof (cases "j < length ds")
    case True
    with assms(1) j obtain k where "k < j" "pid (ds ! k) = parentPid (ds ! j)"
      by (auto simp: parents_first_def)
    with True have "k < j \<and> pid ((ds @ cs) ! k) = parentPid ((ds @ cs) ! j)"
      by (simp add: nth_append)
    then show ?thesis by blast
  next
    case False
    with j have "j - length ds < length cs" by auto
    with False have "(ds @ cs) ! j \<in> set cs" by (simp add: nth_append)
    with assms(3) have "parentPid ((ds @ cs) ! j) = pid (ds ! i)" by blast
    moreover from False assms(2) have "i < j" by simp
    moreover from assms(2) have "(ds @ cs) ! i = ds ! i" by (simp add: nth_append)
    ultimately have "i < j \<and> pid ((ds @ cs) ! i) = parentPid ((ds @ cs) ! j)" by simp
    then show ?thesis by blast
  qed
qed

lemma walk_parents_first_aux:
  "walk m i ds = Some y \<Longrightarrow> m = children ps \<longrightarrow> parents_first ds \<longrightarrow> parents_first y"
proof (induction m i ds y rule: walk.raw_induct [rotated 1, consumes 1])
  case (1 walk' m i ds y)
  show ?case
  proof (intro impI)
    assume m: "m = children ps" and pf: "parents_first ds"
    show "parents_first y"
    proof (cases "i < length ds")
      case False
      with 1(2) pf show ?thesis by simp
    next
      case True
      with 1(2) have w: "walk' m (Suc i) (ds @ MultiMap_get m (pid (ds ! i))) = Some y" by simp
      have "parents_first (ds @ MultiMap_get m (pid (ds ! i)))"
        using pf True by (rule parents_first_append) (simp add: m MultiMap_get_def children_def)
      with 1(1) [OF w] m show ?thesis by simp
    qed
  qed
qed

lemma walk_parents_first:
  "walk (children ps) i ds = Some y \<Longrightarrow> parents_first ds \<Longrightarrow> parents_first y"
  by (rule walk_parents_first_aux [of "children ps" i ds y ps, THEN mp, THEN mp]) simp_all

lemma kill_each_prefix:
  "kill_each k os xs = (sent, thrown, os') \<Longrightarrow>
     prefix sent (map pid xs) \<and> (thrown = None \<longrightarrow> sent = map pid xs)"
proof (induction xs arbitrary: os sent thrown os')
  case Nil
  then show ?case by simp
next
  case (Cons x xs)
  obtain r os1 where kp: "killPid k os (pid x) = (r, os1)" by (cases "killPid k os (pid x)")
  show ?case
  proof (cases r)
    case (Inl e)
    with Cons.prems kp show ?thesis by auto
  next
    case (Inr u)
    obtain s t o2 where ke: "kill_each k os1 xs = (s, t, o2)" by (cases "kill_each k os1 xs")
    with Cons.prems kp Inr have "sent = pid x # s" "thrown = t" by auto
    with Cons.IH [OF ke] show ?thesis by simp
  qed
qed

lemma parents_first_rev: "parents_first ds \<Longrightarrow> children_first (rev ds)"
  unfolding children_first_def
proof (intro allI impI)
  fix a assume pf: "parents_first ds" and a: "Suc a < length (rev ds)"
  let ?j = "length ds - Suc a"
  from a have j: "0 < ?j \<and> ?j < length ds" by simp
  with pf obtain i where i: "i < ?j" "pid (ds ! i) = parentPid (ds ! ?j)"
    unfolding parents_first_def by blast
  let ?b = "length ds - Suc i"
  from i(1) a have b: "a < ?b \<and> ?b < length (rev ds)" by (simp only: length_rev) arith
  from i(1) have "rev ds ! ?b = ds ! i" by (simp add: rev_nth)
  moreover from a have "rev ds ! a = ds ! ?j" by (simp add: rev_nth)
  ultimately have "pid (rev ds ! ?b) = parentPid (rev ds ! a)" using i(2) by simp
  with b show "\<exists>b>a. b < length (rev ds) \<and> pid (rev ds ! b) = parentPid (rev ds ! a)" by blast
qed

lemma depths_props:
  "length (depths f n) = length (concat (map f [0..<n])) \<and>
   sorted (depths f n) \<and> (\<forall>d \<in> set (depths f n). d < n) \<and>
   (\<forall>j < length (concat (map f [0..<n])). concat (map f [0..<n]) ! j \<in> set (f (depths f n ! j)))"
proof (induction n)
  case 0
  show ?case by (simp add: depths_def)
next
  case (Suc n)
  let ?ds = "concat (map f [0..<n])"
  have ds': "concat (map f [0..<Suc n]) = ?ds @ f n" by simp
  have dp': "depths f (Suc n) = depths f n @ replicate (length (f n)) n"
    by (simp add: depths_def)
  from Suc.IH have len: "length (depths f n) = length ?ds" by blast
  from Suc.IH have srt: "sorted (depths f n)" by blast
  from Suc.IH have bnd: "\<forall>d \<in> set (depths f n). d < n" by blast
  from Suc.IH have mem: "\<forall>j < length ?ds. ?ds ! j \<in> set (f (depths f n ! j))" by blast
  have 1: "length (depths f (Suc n)) = length (concat (map f [0..<Suc n]))"
    by (simp only: ds' dp' length_append len length_replicate)
  have 2: "sorted (depths f (Suc n))"
    unfolding dp' using srt bnd by (auto simp: sorted_append sorted_replicate)
  have 3: "\<forall>d \<in> set (depths f (Suc n)). d < Suc n"
    unfolding dp' using bnd by auto
  have 4: "\<forall>j < length (concat (map f [0..<Suc n])).
             concat (map f [0..<Suc n]) ! j \<in> set (f (depths f (Suc n) ! j))"
  proof (intro allI impI)
    fix j assume j: "j < length (concat (map f [0..<Suc n]))"
    show "concat (map f [0..<Suc n]) ! j \<in> set (f (depths f (Suc n) ! j))"
    proof (cases "j < length ?ds")
      case True
      with mem len show ?thesis by (simp add: ds' dp' nth_append del: upt_Suc)
    next
      case False
      with j have k: "j - length ?ds < length (f n)" unfolding ds' by auto
      from False len have "depths f (Suc n) ! j = n"
        using k by (simp only: dp' nth_append) simp
      moreover from False have "concat (map f [0..<Suc n]) ! j = f n ! (j - length ?ds)"
        by (simp only: ds' nth_append) simp
      ultimately show ?thesis using k by simp
    qed
  qed
  from 1 2 3 4 show ?case by blast
qed

lemma level_root_nonempty: "level m [r] n = [] \<Longrightarrow> 0 < n"
  by (cases n) simp_all

lemma hd_levels:
  assumes "level m [r] n = []"
  shows "hd (concat (map (level m [r]) [0..<n])) = r"
proof -
  from assms obtain k where "n = Suc k" by (cases n) simp_all
  then show ?thesis by (simp only: levels_shift) simp
qed

lemma set_levels:
  assumes "level m L n = []"
  shows "set (concat (map (level m L) [0..<n])) = (\<Union>k. set (level m L k))"
proof
  show "set (concat (map (level m L) [0..<n])) \<subseteq> (\<Union>k. set (level m L k))" by auto
next
  show "(\<Union>k. set (level m L k)) \<subseteq> set (concat (map (level m L) [0..<n]))"
  proof
    fix x assume "x \<in> (\<Union>k. set (level m L k))"
    then obtain k where k: "x \<in> set (level m L k)" by blast
    have "k < n"
    proof (rule ccontr)
      assume "\<not> k < n"
      then have "n \<le> k" by simp
      with assms have "level m L k = []" by (rule level_empty_mono)
      with k show False by simp
    qed
    with k show "x \<in> set (concat (map (level m L) [0..<n]))" by auto
  qed
qed

lemma getDescendants_returns:
  assumes "rootOf ps p = Some r" and "level (children ps) [r] n = []"
  shows "getDescendantsOfProcess ps p = Some (concat (map (level (children ps) [r]) [0..<n]))"
proof -
  have ix: "index_processes ps p = (Some r, children ps)"
    using index_root [of ps p] index_children [of ps p] assms(1)
    by (cases "index_processes ps p") simp
  have "walk (children ps) (length ([]::ProcessInfo list)) ([] @ [r])
          = Some ([] @ concat (map (level (children ps) [r]) [0..<n]))"
    using assms(2) by (rule walk_returns)
  then show ?thesis by (simp add: getDescendantsOfProcess_def ix)
qed

lemma getDescendants_parents_first:
  assumes "getDescendantsOfProcess ps p = Some ds"
  shows "parents_first ds"
proof -
  obtain root where ix: "index_processes ps p = (root, children ps)"
    using index_children [of ps p] by (cases "index_processes ps p") simp
  let ?init = "case root of None \<Rightarrow> [] | Some r \<Rightarrow> [r]"
  from assms ix have w: "walk (children ps) 0 ?init = Some ds"
    by (simp add: getDescendantsOfProcess_def)
  have "parents_first ?init" by (cases root) (auto simp: parents_first_def)
  with w show ?thesis by (rule walk_parents_first)
qed

lemma getDescendants_finite_depth:
  assumes "getDescendantsOfProcess ps p = Some ds" and "rootOf ps p = Some r"
  shows "\<exists>n. level (children ps) [r] n = []"
proof -
  have ix: "index_processes ps p = (Some r, children ps)"
    using index_root [of ps p] index_children [of ps p] assms(2)
    by (cases "index_processes ps p") simp
  from assms(1) ix have "walk (children ps) 0 [r] = Some ds"
    by (simp add: getDescendantsOfProcess_def)
  from walk_finite_depth [OF this] show ?thesis by simp
qed

lemma level_fixed: "next_level m L = L \<Longrightarrow> level m L n = L"
  by (induction n) simp_all

text \<open>
  A table in which the pids can be ranked so that every row ranks above its parent
  has no cycle of parent links, and every tree in it has finite depth.
\<close>

lemma level_Suc_right: "level m L (Suc n) = next_level m (level m L n)"
  by (induction n arbitrary: L) simp_all

lemma level_rank:
  fixes rk :: "number \<Rightarrow> nat"
  assumes "\<forall>info \<in> set ps. rk (parentPid info) < rk (pid info)"
  shows "x \<in> set (level (children ps) L (Suc n)) \<Longrightarrow> x \<in> set ps \<and> n < rk (pid x)"
proof (induction n arbitrary: x)
  case 0
  then have "x \<in> set (next_level (children ps) L)" by simp
  then obtain y where "y \<in> set L" and "x \<in> set (children ps (pid y))"
    unfolding next_level_def by auto
  then have "x \<in> set ps" by (simp add: children_def)
  with assms have "rk (parentPid x) < rk (pid x)" by blast
  with \<open>x \<in> set ps\<close> show ?case by simp
next
  case (Suc n)
  from Suc.prems have "x \<in> set (next_level (children ps) (level (children ps) L (Suc n)))"
    by (simp only: level_Suc_right [of _ _ "Suc n"])
  then obtain y where y: "y \<in> set (level (children ps) L (Suc n))"
    and x: "x \<in> set (children ps (pid y))"
    unfolding next_level_def by auto
  from x have xp: "x \<in> set ps" and p: "parentPid x = pid y" by (simp_all add: children_def)
  from Suc.IH [OF y] have "n < rk (pid y)" by simp
  moreover from assms xp have "rk (parentPid x) < rk (pid x)" by blast
  ultimately show ?case using xp p by simp
qed

lemma ranked_finite_depth:
  fixes rk :: "number \<Rightarrow> nat"
  assumes "\<forall>info \<in> set ps. rk (parentPid info) < rk (pid info)"
  shows "\<exists>n. level (children ps) L n = []"
proof -
  define M where "M = Max (insert 0 (rk ` pid ` set ps))"
  have le: "rk (pid x) \<le> M" if "x \<in> set ps" for x
    unfolding M_def using that by (intro Max_ge) auto
  have "level (children ps) L (Suc M) = []"
  proof (rule ccontr)
    assume "level (children ps) L (Suc M) \<noteq> []"
    then obtain x where "x \<in> set (level (children ps) L (Suc M))"
      by (cases "level (children ps) L (Suc M)") auto
    from level_rank [OF assms this] le [of x] show False by simp
  qed
  then show ?thesis ..
qed

text \<open>
  C4 (as amended). Take a snapshot of the process table, a pid \<open>p\<close> that is in it, with
  \<open>r\<close> the row the loop keeps as root, and suppose that the tree under \<open>r\<close> has finite
  depth: some level \<open>n\<close> under \<open>r\<close> is empty, which is to say that no chain of
  parent links from the root runs into a cycle. Then \<^verbatim>\<open>getDescendantsOfProcess\<close> returns,
  and the list it returns is the levels \<open>0, 1, \<dots>, n - 1\<close> under the root one after the
  other: it starts with the root, it holds exactly the rows at some depth under the
  root (the root and its transitive descendants), and its places can be given depths
  that never decrease along the list, each row being at the depth given to its place.
  (By \<open>ranked_finite_depth\<close> the depth is finite whenever the table has no cycle.)
\<close>

theorem getDescendantsOfProcess_breadth_first:
  assumes "rootOf ps p = Some r" and "level (children ps) [r] n = []"
  shows "\<exists>ds. getDescendantsOfProcess ps p = Some ds
           \<and> ds = concat (map (level (children ps) [r]) [0..<n])
           \<and> hd ds = r
           \<and> set ds = (\<Union>k. set (level (children ps) [r] k))
           \<and> (\<exists>dep. length dep = length ds \<and> sorted dep
                 \<and> (\<forall>j<length ds. ds ! j \<in> set (level (children ps) [r] (dep ! j))))"
proof -
  let ?ds = "concat (map (level (children ps) [r]) [0..<n])"
  have a: "getDescendantsOfProcess ps p = Some ?ds"
    using assms by (rule getDescendants_returns)
  have b: "hd ?ds = r" using assms(2) by (rule hd_levels)
  have c: "set ?ds = (\<Union>k. set (level (children ps) [r] k))"
    using assms(2) by (rule set_levels)
  have d: "\<exists>dep. length dep = length ?ds \<and> sorted dep
             \<and> (\<forall>j<length ?ds. ?ds ! j \<in> set (level (children ps) [r] (dep ! j)))"
    using depths_props [of "level (children ps) [r]" n] by blast
  from a b c d show ?thesis by blast
qed

text \<open>
  The snapshot of the spec: \<^verbatim>\<open>parsePsOutput\<close> reads the rows (ppid 1, pid 100, bash)
  and (ppid 100, pid 200, node) from the output of \<^verbatim>\<open>ps\<close>, and the descendants of pid
  100 are the rows of pid 100 and pid 200, in that order.
\<close>

theorem getDescendantsOfProcess_breadth_first_witness:
  "parsePsOutput ps_text None = ps_example \<and>
   map pid (parsePsOutput ps_text (Some args_text)) = map pid ps_example \<and>
   map parentPid (parsePsOutput ps_text (Some args_text)) = map parentPid ps_example \<and>
   rootOf ps_example (Num 100) = Some (ps_example ! 0) \<and>
   level (children ps_example) [ps_example ! 0] 2 = [] \<and>
   getDescendantsOfProcess ps_example (Num 100) = Some [ps_example ! 0, ps_example ! 1] \<and>
   map pid [ps_example ! 0, ps_example ! 1] = [Num 100, Num 200]"
proof -
  have h1: "rootOf ps_example (Num 100) = Some (ps_example ! 0)"
    by (simp add: rootOf_def strict_eq_def ps_example_def)
  have h2: "level (children ps_example) [ps_example ! 0] (Suc (Suc 0)) = []"
    by (simp add: children_def next_level_def ps_example_def)
  have lv: "concat (map (level (children ps_example) [ps_example ! 0]) [0..<Suc (Suc 0)])
              = [ps_example ! 0, ps_example ! 1]"
    by (simp add: children_def next_level_def ps_example_def)
  from getDescendantsOfProcess_breadth_first [OF h1 h2] lv
  have "getDescendantsOfProcess ps_example (Num 100) = Some [ps_example ! 0, ps_example ! 1]"
    by simp
  with h1 h2 have r: "rootOf ps_example (Num 100) = Some (ps_example ! 0) \<and>
     level (children ps_example) [ps_example ! 0] 2 = [] \<and>
     getDescendantsOfProcess ps_example (Num 100) = Some [ps_example ! 0, ps_example ! 1] \<and>
     map pid [ps_example ! 0, ps_example ! 1] = [Num 100, Num 200]"
    by (simp add: numeral_2_eq_2 ps_example_def)
  have p1: "parsePsOutput ps_text None = ps_example"
    by code_simp
  have p2: "map pid (parsePsOutput ps_text (Some args_text)) = map pid ps_example"
    by code_simp
  have p3: "map parentPid (parsePsOutput ps_text (Some args_text)) = map parentPid ps_example"
    by code_simp
  from r p1 p2 p3 show ?thesis by (simp only: simp_thms)
qed

text \<open>
  C4 as stated fails: on a snapshot whose only row is its own parent, the pid of that
  row is present and the walk from it never returns.
\<close>

theorem getDescendantsOfProcess_cycle_counterexample:
  "rootOf self_parent_example (Num 0) = Some (self_parent_example ! 0) \<and>
   getDescendantsOfProcess self_parent_example (Num 0) = None"
proof
  show r: "rootOf self_parent_example (Num 0) = Some (self_parent_example ! 0)"
    by (simp add: rootOf_def strict_eq_def self_parent_example_def)
  show "getDescendantsOfProcess self_parent_example (Num 0) = None"
  proof (rule ccontr)
    assume "getDescendantsOfProcess self_parent_example (Num 0) \<noteq> None"
    then obtain ds where "getDescendantsOfProcess self_parent_example (Num 0) = Some ds"
      by blast
    from getDescendants_finite_depth [OF this r] obtain n where
      n: "level (children self_parent_example) [self_parent_example ! 0] n = []" ..
    have "next_level (children self_parent_example) [self_parent_example ! 0]
            = [self_parent_example ! 0]"
      by (simp add: next_level_def children_def self_parent_example_def)
    from level_fixed [OF this, of n] n show False by simp
  qed
qed

lemma killPid_throws:
  "killPid k os q = (Inl e, os') \<Longrightarrow> k os q = (Some e, os') \<and> code e \<noteq> ''ESRCH''"
  by (auto simp: killPid_def split: prod.splits option.splits if_splits)

lemma kill_each_thrown:
  "kill_each k os xs = (sent, Some e, os') \<Longrightarrow>
     sent \<noteq> [] \<and> code e \<noteq> ''ESRCH'' \<and> (\<exists>os1 os2. k os1 (last sent) = (Some e, os2))"
proof (induction xs arbitrary: os sent)
  case Nil
  then show ?case by simp
next
  case (Cons x xs)
  obtain r os1 where kp: "killPid k os (pid x) = (r, os1)" by (cases "killPid k os (pid x)")
  show ?case
  proof (cases r)
    case (Inl e')
    with Cons.prems kp have s: "sent = [pid x]" and e: "e' = e" by auto
    from killPid_throws [of k os "pid x" e' os1] kp Inl e
    have "k os (pid x) = (Some e, os1) \<and> code e \<noteq> ''ESRCH''" by simp
    with s show ?thesis by auto
  next
    case (Inr u)
    obtain s t o2 where ke: "kill_each k os1 xs = (s, t, o2)" by (cases "kill_each k os1 xs")
    with Cons.prems kp Inr have eq: "sent = pid x # s" "t = Some e" "o2 = os'" by auto
    from Cons.IH [of os1 s] ke eq
    have "s \<noteq> [] \<and> code e \<noteq> ''ESRCH'' \<and> (\<exists>os1 os2. k os1 (last s) = (Some e, os2))" by simp
    with eq(1) show ?thesis by simp
  qed
qed

lemma depths_rev:
  assumes "level m [r] n = []"
  shows "\<exists>dep. length dep = length (concat (map (level m [r]) [0..<n]))
           \<and> sorted (rev dep)
           \<and> (\<forall>j < length (concat (map (level m [r]) [0..<n])).
                 rev (concat (map (level m [r]) [0..<n])) ! j \<in> set (level m [r] (dep ! j)))"
proof -
  let ?ds = "concat (map (level m [r]) [0..<n])"
  let ?dep = "depths (level m [r]) n"
  from depths_props [of "level m [r]" n]
  have len: "length ?dep = length ?ds" and srt: "sorted ?dep"
    and mem: "\<forall>j < length ?ds. ?ds ! j \<in> set (level m [r] (?dep ! j))"
    by blast+
  have "\<forall>j < length ?ds. rev ?ds ! j \<in> set (level m [r] (rev ?dep ! j))"
  proof (intro allI impI)
    fix j assume j: "j < length ?ds"
    then have "length ?ds - Suc j < length ?ds" by simp
    with mem have "?ds ! (length ?ds - Suc j) \<in> set (level m [r] (?dep ! (length ?ds - Suc j)))"
      by blast
    with j len show "rev ?ds ! j \<in> set (level m [r] (rev ?dep ! j))"
      by (simp add: rev_nth)
  qed
  with len srt have "length (rev ?dep) = length ?ds \<and> sorted (rev (rev ?dep))
     \<and> (\<forall>j < length ?ds. rev ?ds ! j \<in> set (level m [r] (rev ?dep ! j)))"
    by simp
  then show ?thesis by blast
qed

text \<open>
  C3. For a process tree of finite depth under the root \<open>r\<close>, \<^verbatim>\<open>killUnixProcessTree\<close>
  obtains the breadth-first list \<open>ds\<close> of the descendants: the levels under the root one
  after the other, which hold exactly the root and its transitive descendants. It hands
  the pids to \<^verbatim>\<open>process.kill\<close> in the order of the reversed list, whose places have
  depths that never increase: the deepest rows come first. The pids signalled are an
  initial part of the reversed list, all of it when no \<^verbatim>\<open>killPid\<close> throws; when one does,
  the error is one that \<^verbatim>\<open>process.kill\<close> threw on the last pid signalled, with a code
  other than \<^verbatim>\<open>ESRCH\<close>. In the reversed list every row but the last has its parent at a
  later place, and the last row is the root: children are signalled before their
  parents, the root last.
\<close>

theorem killUnixProcessTree_children_first:
  assumes "rootOf ps p = Some r" and "level (children ps) [r] n = []"
  shows "\<exists>ds sent thrown os'.
           getDescendantsOfProcess ps p = Some ds
           \<and> ds = concat (map (level (children ps) [r]) [0..<n])
           \<and> set ds = (\<Union>k. set (level (children ps) [r] k))
           \<and> (\<exists>dep. length dep = length ds \<and> sorted (rev dep)
                 \<and> (\<forall>j<length ds. rev ds ! j \<in> set (level (children ps) [r] (dep ! j))))
           \<and> killUnixProcessTree process_kill ps os p = Some (sent, thrown, os')
           \<and> prefix sent (map pid (rev ds))
           \<and> (thrown = None \<longrightarrow> sent = map pid (rev ds))
           \<and> (\<forall>e. thrown = Some e \<longrightarrow>
                 sent \<noteq> [] \<and> code e \<noteq> ''ESRCH''
                 \<and> (\<exists>os1 os2. process_kill os1 (last sent) = (Some e, os2)))
           \<and> children_first (rev ds)
           \<and> last (rev ds) = r"
proof -
  let ?ds = "concat (map (level (children ps) [r]) [0..<n])"
  have a: "getDescendantsOfProcess ps p = Some ?ds"
    using assms by (rule getDescendants_returns)
  have s: "set ?ds = (\<Union>k. set (level (children ps) [r] k))"
    using assms(2) by (rule set_levels)
  have dp: "\<exists>dep. length dep = length ?ds \<and> sorted (rev dep)
                 \<and> (\<forall>j<length ?ds. rev ?ds ! j \<in> set (level (children ps) [r] (dep ! j)))"
    using assms(2) by (rule depths_rev)
  obtain sent thrown os' where k: "kill_each process_kill os (rev ?ds) = (sent, thrown, os')"
    by (cases "kill_each process_kill os (rev ?ds)")
  from a k have b: "killUnixProcessTree process_kill ps os p = Some (sent, thrown, os')"
    by (simp add: killUnixProcessTree_def)
  from kill_each_prefix [OF k]
  have c: "prefix sent (map pid (rev ?ds)) \<and> (thrown = None \<longrightarrow> sent = map pid (rev ?ds))" .
  have t: "\<forall>e. thrown = Some e \<longrightarrow>
                 sent \<noteq> [] \<and> code e \<noteq> ''ESRCH''
                 \<and> (\<exists>os1 os2. process_kill os1 (last sent) = (Some e, os2))"
    using k kill_each_thrown [of process_kill os "rev ?ds" sent _ os'] by blast
  from a have "parents_first ?ds" by (rule getDescendants_parents_first)
  then have d: "children_first (rev ?ds)" by (rule parents_first_rev)
  from assms(2) have ne: "?ds \<noteq> []"
    using hd_levels [OF assms(2)] levels_shift [of "children ps" "[r]"]
    by (cases n) simp_all
  have "hd ?ds = r" using assms(2) by (rule hd_levels)
  with ne have e: "last (rev ?ds) = r" by (simp add: last_rev)
  from a s dp b c t d e show ?thesis by blast
qed

text \<open>
  The chain root \<open>\<rightarrow>\<close> A \<open>\<rightarrow>\<close> B, with pids 10, 20, 30: B is signalled first, then A, then
  the root. The root 10 with the children A (11) and C (12), where A has the child B
  (13): B, the deepest, is signalled first, then C, A and the root, although the table
  lists B before C. (The state of the system is here the list of the pids signalled so
  far.)
\<close>

theorem killUnixProcessTree_children_first_witness:
  "rootOf chain_example (Num 10) = Some (chain_example ! 0) \<and>
   level (children chain_example) [chain_example ! 0] 3 = [] \<and>
   getDescendantsOfProcess chain_example (Num 10) = Some chain_example \<and>
   killUnixProcessTree (\<lambda>os p. (None, os @ [p])) chain_example [] (Num 10)
     = Some ([Num 30, Num 20, Num 10], None, [Num 30, Num 20, Num 10]) \<and>
   rootOf fork_example (Num 10) = Some (fork_example ! 0) \<and>
   level (children fork_example) [fork_example ! 0] 3 = [] \<and>
   map_option (map pid) (getDescendantsOfProcess fork_example (Num 10))
     = Some [Num 10, Num 11, Num 12, Num 13] \<and>
   killUnixProcessTree (\<lambda>os p. (None, os @ [p])) fork_example [] (Num 10)
     = Some ([Num 13, Num 12, Num 11, Num 10], None, [Num 13, Num 12, Num 11, Num 10])"
proof -
  have h1: "rootOf chain_example (Num 10) = Some (chain_example ! 0)"
    by (simp add: rootOf_def strict_eq_def chain_example_def)
  have h2: "level (children chain_example) [chain_example ! 0] (Suc (Suc (Suc 0))) = []"
    by (simp add: children_def next_level_def chain_example_def)
  have lv: "concat (map (level (children chain_example) [chain_example ! 0])
              [0..<Suc (Suc (Suc 0))]) = chain_example"
    by (simp add: children_def next_level_def chain_example_def)
  from killUnixProcessTree_children_first [OF h1 h2, of "\<lambda>os p. (None, os @ [p])" "[]"] lv
  have g: "getDescendantsOfProcess chain_example (Num 10) = Some chain_example"
    by auto
  have e: "killUnixProcessTree (\<lambda>os p. (None, os @ [p])) chain_example [] (Num 10)
     = Some ([Num 30, Num 20, Num 10], None, [Num 30, Num 20, Num 10])"
    by (simp add: killUnixProcessTree_def g killPid_def) (simp add: chain_example_def killPid_def)
  have f1: "rootOf fork_example (Num 10) = Some (fork_example ! 0)"
    by (simp add: rootOf_def strict_eq_def fork_example_def)
  have f2: "level (children fork_example) [fork_example ! 0] (Suc (Suc (Suc 0))) = []"
    by (simp add: children_def next_level_def fork_example_def)
  have flv: "concat (map (level (children fork_example) [fork_example ! 0])
              [0..<Suc (Suc (Suc 0))])
             = [fork_example ! 0, fork_example ! 1, fork_example ! 3, fork_example ! 2]"
    by (simp add: children_def next_level_def fork_example_def)
  from killUnixProcessTree_children_first [OF f1 f2, of "\<lambda>os p. (None, os @ [p])" "[]"] flv
  have fg: "getDescendantsOfProcess fork_example (Num 10)
              = Some [fork_example ! 0, fork_example ! 1, fork_example ! 3, fork_example ! 2]"
    by auto
  have fe: "killUnixProcessTree (\<lambda>os p. (None, os @ [p])) fork_example [] (Num 10)
     = Some ([Num 13, Num 12, Num 11, Num 10], None, [Num 13, Num 12, Num 11, Num 10])"
    by (simp add: killUnixProcessTree_def fg killPid_def) (simp add: fork_example_def killPid_def)
  have fm: "map_option (map pid) (getDescendantsOfProcess fork_example (Num 10))
     = Some [Num 10, Num 11, Num 12, Num 13]"
    by (simp add: fg) (simp add: fork_example_def)
  from h1 h2 g e f1 f2 fm fe show ?thesis by (simp only: numeral_3_eq_3 simp_thms)
qed

section \<open>Properties of the output stream\<close>

subsection \<open>Chunking keeps the data\<close>

lemma splitStream_next_concat:
  "concat (fst (splitStream_next current data)) @ snd (splitStream_next current data)
     = current @ data"
  by (induction current data rule: splitStream_next.induct) (auto split: prod.splits)

lemma chunk_next_concat:
  assumes "splitByLines options = Some False \<longrightarrow> current = []"
  shows "concat (fst (chunk_next options current data)) @ snd (chunk_next options current data)
           = current @ data"
  using assms by (simp add: chunk_next_def splitStream_next_concat)

lemma chunk_next_raw:
  "splitByLines options = Some False \<Longrightarrow> snd (chunk_next options current data) = current"
  by (simp add: chunk_next_def)

lemma chunk_end_concat:
  assumes "splitByLines options = Some False \<longrightarrow> current = []"
  shows "concat (chunk_end options current) = current"
  using assms by (simp add: chunk_end_def splitStream_end_def)

lemma stdout_data_append: "stdout_data (xs @ ys) = stdout_data xs @ stdout_data ys"
  by (induction xs rule: stdout_data.induct) simp_all

lemma stderr_data_append: "stderr_data (xs @ ys) = stderr_data xs @ stderr_data ys"
  by (induction xs rule: stderr_data.induct) simp_all

lemma stdout_data_map [simp]:
  "stdout_data (map stdout_message ls) = ls" "stdout_data (map stderr_message ls) = []"
  by (induction ls) simp_all

lemma stderr_data_map [simp]:
  "stderr_data (map stderr_message ls) = ls" "stderr_data (map stdout_message ls) = []"
  by (induction ls) simp_all

subsection \<open>The multiplexer, one event at a time\<close>

lemma mux_step_failed: "failure st \<noteq> None \<Longrightarrow> mux_step options st ev = st"
  by (simp add: mux_step_def)

lemma foldl_mux_step_failed: "failure st \<noteq> None \<Longrightarrow> foldl (mux_step options) st evs = st"
  by (induction evs) (simp_all add: mux_step_failed)

lemma mux_step_Exit:
  "failure (mux_step options st (Exit e)) = failure st"
  "stdoutTotal (mux_step options st (Exit e)) = stdoutTotal st"
  "stderrTotal (mux_step options st (Exit e)) = stderrTotal st"
  "seen s (mux_step options st (Exit e)) = seen s st"
  "raw_inv options (mux_step options st (Exit e)) = raw_inv options st"
  by (simp_all add: mux_step_def seen_def raw_inv_def split: fd.splits)

lemma mux_step_Stdout_ok:
  assumes "failure st = None"
    and "limitBufferSize (maxBuffer options) ''stdout'' (stdoutTotal st) data = Inr t"
  shows "failure (mux_step options st (Data Stdout data)) = None"
    and "stdoutTotal (mux_step options st (Data Stdout data)) = t"
    and "stderrTotal (mux_step options st (Data Stdout data)) = stderrTotal st"
    and "raw_inv options st \<Longrightarrow> seen Stdout (mux_step options st (Data Stdout data))
           = seen Stdout st @ data"
    and "seen Stderr (mux_step options st (Data Stdout data)) = seen Stderr st"
    and "raw_inv options st \<Longrightarrow> raw_inv options (mux_step options st (Data Stdout data))"
proof -
  obtain ls cur where c: "chunk_next options (stdoutCurrent st) data = (ls, cur)"
    by (cases "chunk_next options (stdoutCurrent st) data")
  have st': "mux_step options st (Data Stdout data)
     = st\<lparr>stdoutTotal := t, stdoutCurrent := cur, messages := messages st @ map stdout_message ls\<rparr>"
    using assms c by (simp add: mux_step_def)
  show "failure (mux_step options st (Data Stdout data)) = None"
    using assms(1) by (simp add: st')
  show "stdoutTotal (mux_step options st (Data Stdout data)) = t" by (simp add: st')
  show "stderrTotal (mux_step options st (Data Stdout data)) = stderrTotal st" by (simp add: st')
  show "seen Stderr (mux_step options st (Data Stdout data)) = seen Stderr st"
    by (simp add: st' seen_def stderr_data_append)
  { assume r: "raw_inv options st"
    then have "splitByLines options = Some False \<longrightarrow> stdoutCurrent st = []"
      by (simp add: raw_inv_def)
    from chunk_next_concat [OF this, of data] c
    have k: "concat ls @ cur = stdoutCurrent st @ data" by simp
    show "seen Stdout (mux_step options st (Data Stdout data)) = seen Stdout st @ data"
      using k by (simp add: st' seen_def stdout_data_append)
    show "raw_inv options (mux_step options st (Data Stdout data))"
      using r c chunk_next_raw [of options "stdoutCurrent st" data]
      by (auto simp: st' raw_inv_def) }
qed

lemma mux_step_Stderr_ok:
  assumes "failure st = None"
    and "limitBufferSize (maxBuffer options) ''stderr'' (stderrTotal st) data = Inr t"
  shows "failure (mux_step options st (Data Stderr data)) = None"
    and "stderrTotal (mux_step options st (Data Stderr data)) = t"
    and "stdoutTotal (mux_step options st (Data Stderr data)) = stdoutTotal st"
    and "raw_inv options st \<Longrightarrow> seen Stderr (mux_step options st (Data Stderr data))
           = seen Stderr st @ data"
    and "seen Stdout (mux_step options st (Data Stderr data)) = seen Stdout st"
    and "raw_inv options st \<Longrightarrow> raw_inv options (mux_step options st (Data Stderr data))"
proof -
  obtain ls cur where c: "chunk_next options (stderrCurrent st) data = (ls, cur)"
    by (cases "chunk_next options (stderrCurrent st) data")
  have st': "mux_step options st (Data Stderr data)
     = st\<lparr>stderrTotal := t, stderrCurrent := cur, messages := messages st @ map stderr_message ls\<rparr>"
    using assms c by (simp add: mux_step_def)
  show "failure (mux_step options st (Data Stderr data)) = None"
    using assms(1) by (simp add: st')
  show "stderrTotal (mux_step options st (Data Stderr data)) = t" by (simp add: st')
  show "stdoutTotal (mux_step options st (Data Stderr data)) = stdoutTotal st" by (simp add: st')
  show "seen Stdout (mux_step options st (Data Stderr data)) = seen Stdout st"
    by (simp add: st' seen_def stdout_data_append)
  { assume r: "raw_inv options st"
    then have "splitByLines options = Some False \<longrightarrow> stderrCurrent st = []"
      by (simp add: raw_inv_def)
    from chunk_next_concat [OF this, of data] c
    have k: "concat ls @ cur = stderrCurrent st @ data" by simp
    show "seen Stderr (mux_step options st (Data Stderr data)) = seen Stderr st @ data"
      using k by (simp add: st' seen_def stderr_data_append)
    show "raw_inv options (mux_step options st (Data Stderr data))"
      using r c chunk_next_raw [of options "stderrCurrent st" data]
      by (auto simp: st' raw_inv_def) }
qed

lemma mux_step_Stdout_fail:
  assumes "failure st = None"
    and "limitBufferSize (maxBuffer options) ''stdout'' (stdoutTotal st) data = Inl err"
  shows "mux_step options st (Data Stdout data) = st\<lparr>failure := Some err\<rparr>"
  using assms by (simp add: mux_step_def)

lemma mux_step_Stderr_fail:
  assumes "failure st = None"
    and "limitBufferSize (maxBuffer options) ''stderr'' (stderrTotal st) data = Inl err"
  shows "mux_step options st (Data Stderr data) = st\<lparr>failure := Some err\<rparr>"
  using assms by (simp add: mux_step_def)

lemma limitBufferSize_cases:
  "limitBufferSize None name t data = Inr t"
  "int (t + length data) \<le> B \<Longrightarrow> limitBufferSize (Some B) name t data = Inr (t + length data)"
  "B < int (t + length data) \<Longrightarrow>
     limitBufferSize (Some B) name t data = Inl (MaxBufferExceededError name)"
  by (simp_all add: limitBufferSize_def Let_def)


lemma mux_step_keeps:
  assumes "failure (mux_step options st ev) = None" and "raw_inv options st"
  shows "seen s (mux_step options st ev) = seen s st @ concat (produced s [ev])
         \<and> raw_inv options (mux_step options st ev)"
proof -
  from assms(1) have f: "failure st = None"
    by (cases "failure st") (simp_all add: mux_step_failed)
  show ?thesis
  proof (cases ev)
    case (Exit e)
    with assms(2) show ?thesis by (simp add: mux_step_Exit)
  next
    case (Data s' d)
    show ?thesis
    proof (cases s')
      case Stdout
      obtain t where "limitBufferSize (maxBuffer options) ''stdout'' (stdoutTotal st) d = Inr t"
        using assms(1) f Data Stdout
        by (cases "limitBufferSize (maxBuffer options) ''stdout'' (stdoutTotal st) d")
           (simp_all add: mux_step_Stdout_fail)
      from mux_step_Stdout_ok(4,5,6) [OF f this] assms(2) Data Stdout
      show ?thesis by (cases s) simp_all
    next
      case Stderr
      obtain t where "limitBufferSize (maxBuffer options) ''stderr'' (stderrTotal st) d = Inr t"
        using assms(1) f Data Stderr
        by (cases "limitBufferSize (maxBuffer options) ''stderr'' (stderrTotal st) d")
           (simp_all add: mux_step_Stderr_fail)
      from mux_step_Stderr_ok(4,5,6) [OF f this] assms(2) Data Stderr
      show ?thesis by (cases s) simp_all
    qed
  qed
qed

lemma produced_Cons: "concat (produced s (ev # evs)) = concat (produced s [ev]) @ concat (produced s evs)"
  by (cases ev) simp_all

lemma foldl_mux_step_keeps:
  "failure (foldl (mux_step options) st evs) = None \<Longrightarrow> raw_inv options st \<Longrightarrow>
     seen s (foldl (mux_step options) st evs) = seen s st @ concat (produced s evs)
     \<and> raw_inv options (foldl (mux_step options) st evs)"
proof (induction evs arbitrary: st)
  case Nil
  then show ?case by simp
next
  case (Cons ev evs)
  let ?st1 = "mux_step options st ev"
  from Cons.prems(1) have fin: "failure (foldl (mux_step options) ?st1 evs) = None" by simp
  have f1: "failure ?st1 = None"
  proof (cases "failure ?st1")
    case None then show ?thesis .
  next
    case (Some e)
    then have "foldl (mux_step options) ?st1 evs = ?st1" by (simp add: foldl_mux_step_failed)
    with fin Some show ?thesis by simp
  qed
  from mux_step_keeps [OF f1 Cons.prems(2), of s]
  have k: "seen s ?st1 = seen s st @ concat (produced s [ev])" and r: "raw_inv options ?st1"
    by simp_all
  from Cons.IH [OF fin r] k show ?case
    by (simp only: foldl_Cons produced_Cons [of s ev evs] append_assoc)
qed

lemma foldl_mux_step_unbounded:
  "maxBuffer options = None \<Longrightarrow> failure st = None \<Longrightarrow>
     failure (foldl (mux_step options) st evs) = None"
proof (induction evs arbitrary: st)
  case Nil
  then show ?case by simp
next
  case (Cons ev evs)
  have "failure (mux_step options st ev) = None"
  proof (cases ev)
    case (Exit e)
    with Cons.prems show ?thesis by (simp add: mux_step_Exit)
  next
    case (Data s d)
    with Cons.prems show ?thesis
      by (cases s)
         (simp_all add: mux_step_Stdout_ok(1) mux_step_Stderr_ok(1) limitBufferSize_cases(1))
  qed
  from Cons.IH [OF Cons.prems(1) this] show ?case by simp
qed

lemma amount_simps [simp]:
  "amount s [] = 0"
  "amount s (Exit e # evs) = amount s evs"
  "amount s (Data s' d # evs) = (if s' = s then length d + amount s evs else amount s evs)"
  by (simp_all add: amount_def)

lemma foldl_mux_step_fits:
  "maxBuffer options = Some B \<Longrightarrow> failure st = None \<Longrightarrow>
   int (stdoutTotal st + amount Stdout evs) \<le> B \<Longrightarrow>
   int (stderrTotal st + amount Stderr evs) \<le> B \<Longrightarrow>
     failure (foldl (mux_step options) st evs) = None"
proof (induction evs arbitrary: st)
  case Nil
  then show ?case by simp
next
  case (Cons ev evs)
  let ?st1 = "mux_step options st ev"
  have "failure ?st1 = None
        \<and> int (stdoutTotal ?st1 + amount Stdout evs) \<le> B
        \<and> int (stderrTotal ?st1 + amount Stderr evs) \<le> B"
  proof (cases ev)
    case (Exit e)
    with Cons.prems show ?thesis by (simp add: mux_step_Exit)
  next
    case (Data s d)
    show ?thesis
    proof (cases s)
      case Stdout
      with Data Cons.prems(3) have "int (stdoutTotal st + length d) \<le> B" by simp
      then have l: "limitBufferSize (maxBuffer options) ''stdout'' (stdoutTotal st) d
                  = Inr (stdoutTotal st + length d)"
        by (simp add: Cons.prems(1) limitBufferSize_cases(2))
      from mux_step_Stdout_ok(1,2,3) [OF Cons.prems(2) l] Cons.prems(3,4) Data Stdout
      show ?thesis by (simp add: add.assoc)
    next
      case Stderr
      with Data Cons.prems(4) have "int (stderrTotal st + length d) \<le> B" by simp
      then have l: "limitBufferSize (maxBuffer options) ''stderr'' (stderrTotal st) d
                  = Inr (stderrTotal st + length d)"
        by (simp add: Cons.prems(1) limitBufferSize_cases(2))
      from mux_step_Stderr_ok(1,2,3) [OF Cons.prems(2) l] Cons.prems(3,4) Data Stderr
      show ?thesis by (simp add: add.assoc)
    qed
  qed
  then have "failure (foldl (mux_step options) ?st1 evs) = None"
    using Cons.IH [OF Cons.prems(1), of ?st1] by blast
  then show ?case by simp
qed

lemma foldl_mux_step_exceeds:
  "maxBuffer options = Some B \<Longrightarrow> failure st = None \<Longrightarrow>
   int (stdoutTotal st) \<le> B \<Longrightarrow> int (stderrTotal st) \<le> B \<Longrightarrow>
   B < int (stdoutTotal st + amount Stdout evs) \<or> B < int (stderrTotal st + amount Stderr evs) \<Longrightarrow>
     \<exists>name. failure (foldl (mux_step options) st evs) = Some (MaxBufferExceededError name)
       \<and> (name = ''stdout'' \<and> B < int (stdoutTotal st + amount Stdout evs)
           \<or> name = ''stderr'' \<and> B < int (stderrTotal st + amount Stderr evs))"
proof (induction evs arbitrary: st)
  case Nil
  then show ?case by simp
next
  case (Cons ev evs)
  let ?st1 = "mux_step options st ev"
  show ?case
  proof (cases ev)
    case (Exit e)
    have "failure ?st1 = None" "int (stdoutTotal ?st1) \<le> B" "int (stderrTotal ?st1) \<le> B"
      "B < int (stdoutTotal ?st1 + amount Stdout evs) \<or> B < int (stderrTotal ?st1 + amount Stderr evs)"
      using Cons.prems Exit by (simp_all add: mux_step_Exit)
    from Cons.IH [OF Cons.prems(1) this] show ?thesis
      using Exit by (simp add: mux_step_Exit)
  next
    case (Data s d)
    show ?thesis
    proof (cases s)
      case Stdout
      show ?thesis
      proof (cases "int (stdoutTotal st + length d) \<le> B")
        case True
        then have l: "limitBufferSize (maxBuffer options) ''stdout'' (stdoutTotal st) d
                    = Inr (stdoutTotal st + length d)"
          by (simp add: Cons.prems(1) limitBufferSize_cases(2))
        note ok = mux_step_Stdout_ok(1,2,3) [OF Cons.prems(2) l]
        have "failure (mux_step options st (Data Stdout d)) = None"
          "int (stdoutTotal (mux_step options st (Data Stdout d))) \<le> B"
          "int (stderrTotal (mux_step options st (Data Stdout d))) \<le> B"
          "B < int (stdoutTotal (mux_step options st (Data Stdout d)) + amount Stdout evs)
           \<or> B < int (stderrTotal (mux_step options st (Data Stdout d)) + amount Stderr evs)"
          using Cons.prems True Data Stdout by (simp_all add: ok add.assoc)
        from Cons.IH [OF Cons.prems(1) this] show ?thesis
          using Data Stdout by (simp add: ok add.assoc)
      next
        case False
        then have l: "limitBufferSize (maxBuffer options) ''stdout'' (stdoutTotal st) d
                    = Inl (MaxBufferExceededError ''stdout'')"
          by (simp add: Cons.prems(1) limitBufferSize_cases(3))
        have "foldl (mux_step options) st (ev # evs)
                = st\<lparr>failure := Some (MaxBufferExceededError ''stdout'')\<rparr>"
          using Data Stdout
          by (simp add: mux_step_Stdout_fail [OF Cons.prems(2) l] foldl_mux_step_failed)
        with False Data Stdout show ?thesis by simp
      qed
    next
      case Stderr
      show ?thesis
      proof (cases "int (stderrTotal st + length d) \<le> B")
        case True
        then have l: "limitBufferSize (maxBuffer options) ''stderr'' (stderrTotal st) d
                    = Inr (stderrTotal st + length d)"
          by (simp add: Cons.prems(1) limitBufferSize_cases(2))
        note ok = mux_step_Stderr_ok(1,2,3) [OF Cons.prems(2) l]
        have "failure (mux_step options st (Data Stderr d)) = None"
          "int (stdoutTotal (mux_step options st (Data Stderr d))) \<le> B"
          "int (stderrTotal (mux_step options st (Data Stderr d))) \<le> B"
          "B < int (stdoutTotal (mux_step options st (Data Stderr d)) + amount Stdout evs)
           \<or> B < int (stderrTotal (mux_step options st (Data Stderr d)) + amount Stderr evs)"
          using Cons.prems True Data Stderr by (simp_all add: ok add.assoc)
        from Cons.IH [OF Cons.prems(1) this] show ?thesis
          using Data Stderr by (simp add: ok add.assoc)
      next
        case False
        then have l: "limitBufferSize (maxBuffer options) ''stderr'' (stderrTotal st) d
                    = Inl (MaxBufferExceededError ''stderr'')"
          by (simp add: Cons.prems(1) limitBufferSize_cases(3))
        have "foldl (mux_step options) st (ev # evs)
                = st\<lparr>failure := Some (MaxBufferExceededError ''stderr'')\<rparr>"
          using Data Stderr
          by (simp add: mux_step_Stderr_fail [OF Cons.prems(2) l] foldl_mux_step_failed)
        with False Data Stderr show ?thesis by simp
      qed
    qed
  qed
qed


subsection \<open>The accumulated stderr\<close>

lemma takeWhileInclusive_nonempty: "takeWhileInclusive p (x # xs) \<noteq> []"
  by simp

lemma takeWhileInclusive_hd: "hd (takeWhileInclusive p (x # xs)) = x"
  by simp

lemma takeWhileInclusive_butlast: "\<forall>x \<in> set (butlast (takeWhileInclusive p xs)). p x"
  by (induction xs) (auto split: if_splits)

lemma take_take_append: "take n (take n xs @ ys) = take n (xs @ ys)"
  by (cases "n \<le> length xs") simp_all

lemma accumulated_last:
  "length a \<le> n \<Longrightarrow>
   last (takeWhileInclusive (\<lambda>acc. length acc < n) (a # scan (\<lambda>acc d. take n (acc @ d)) a ds))
     = take n (a @ concat ds)"
proof (induction ds arbitrary: a)
  case Nil
  then show ?case by simp
next
  case (Cons d ds)
  show ?case
  proof (cases "length a < n")
    case False
    with Cons.prems show ?thesis by simp
  next
    case True
    let ?b = "take n (a @ d)"
    define rest where
      "rest = takeWhileInclusive (\<lambda>acc. length acc < n)
                (?b # scan (\<lambda>acc d. take n (acc @ d)) ?b ds)"
    have "length ?b \<le> n" by simp
    from Cons.IH [OF this] have "last rest = take n (?b @ concat ds)"
      by (simp only: rest_def)
    also have "\<dots> = take n (a @ concat (d # ds))"
      by (simp only: take_take_append concat.simps append_assoc)
    finally have l: "last rest = take n (a @ concat (d # ds))" .
    have ne: "rest \<noteq> []" by (simp add: rest_def)
    have "takeWhileInclusive (\<lambda>acc. length acc < n)
            (a # scan (\<lambda>acc d. take n (acc @ d)) a (d # ds)) = a # rest"
      using True by (simp add: rest_def)
    with l ne show ?thesis by (simp del: takeWhileInclusive.simps scan.simps)
  qed
qed

lemma accumulated_successively:
  "length a \<le> n \<Longrightarrow>
   successively prefix
     (takeWhileInclusive (\<lambda>acc. length acc < n) (a # scan (\<lambda>acc d. take n (acc @ d)) a ds))"
proof (induction ds arbitrary: a)
  case Nil
  then show ?case by simp
next
  case (Cons d ds)
  show ?case
  proof (cases "length a < n")
    case False
    then show ?thesis by simp
  next
    case True
    let ?b = "take n (a @ d)"
    let ?rest = "takeWhileInclusive (\<lambda>acc. length acc < n)
                   (?b # scan (\<lambda>acc d. take n (acc @ d)) ?b ds)"
    have "length ?b \<le> n" by simp
    from Cons.IH [OF this] have s: "successively prefix ?rest" .
    obtain tl' where r: "?rest = ?b # tl'" by (cases ?rest) (auto split: if_splits)
    from True have p: "prefix a ?b" by (simp add: prefix_def)
    have "takeWhileInclusive (\<lambda>acc. length acc < n)
            (a # scan (\<lambda>acc d. take n (acc @ d)) a (d # ds)) = a # ?rest"
      using True by (simp only: scan.simps takeWhileInclusive.simps if_True)
    with s r p show ?thesis by simp
  qed
qed

lemma accumulatedStderr_pos:
  assumes "0 < N"
  shows "accumulatedStderr N ds
    = takeWhileInclusive (\<lambda>acc. length acc < nat N)
        ([] # scan (\<lambda>acc d. take (nat N) (acc @ d)) [] ds)"
proof -
  from assms have "(\<lambda>acc::string. int (length acc) < N) = (\<lambda>acc. length acc < nat N)"
    by (auto simp: fun_eq_iff)
  moreover from assms have "(\<lambda>acc d. slice0 (acc @ d) N) = (\<lambda>acc d. take (nat N) (acc @ d))"
    by (simp add: fun_eq_iff slice0_def)
  ultimately show ?thesis by (simp only: accumulatedStderr_def)
qed

lemma accumulatedStderr_nonpos:
  assumes "N \<le> 0"
  shows "accumulatedStderr N ds = [[]]"
  using assms by (simp add: accumulatedStderr_def)

lemma accumulatedStderr_last: "last (accumulatedStderr N ds) = take (nat N) (concat ds)"
proof (cases "0 < N")
  case True
  then show ?thesis
    using accumulated_last [of "[]" "nat N" ds] by (simp add: accumulatedStderr_pos)
next
  case False
  then show ?thesis by (simp add: accumulatedStderr_nonpos)
qed

lemma accumulatedStderr_successively: "successively prefix (accumulatedStderr N ds)"
proof (cases "0 < N")
  case True
  then show ?thesis
    using accumulated_successively [of "[]" "nat N" ds] by (simp add: accumulatedStderr_pos)
next
  case False
  then show ?thesis by (simp add: accumulatedStderr_nonpos)
qed

lemma accumulatedStderr_butlast:
  "\<forall>acc \<in> set (butlast (accumulatedStderr N ds)). int (length acc) < N"
  unfolding accumulatedStderr_def by (rule takeWhileInclusive_butlast)

subsection \<open>The reduction of \<^verbatim>\<open>runCommandDetailed\<close>\<close>

lemma reduce_step_data:
  "stdout (reduce_step acc m) = stdout acc @ concat (stdout_data [m])"
  "stderr (reduce_step acc m) = stderr acc @ concat (stderr_data [m])"
  by (cases m; simp add: reduce_step_def)+

lemma data_Cons:
  "stdout_data (m # ms) = stdout_data [m] @ stdout_data ms"
  "stderr_data (m # ms) = stderr_data [m] @ stderr_data ms"
  by (cases m; simp)+

lemma foldl_reduce_step:
  "stdout (foldl reduce_step acc ms) = stdout acc @ concat (stdout_data ms) \<and>
   stderr (foldl reduce_step acc ms) = stderr acc @ concat (stderr_data ms)"
proof (induction ms arbitrary: acc)
  case Nil
  show ?case by simp
next
  case (Cons m ms)
  from Cons.IH [of "reduce_step acc m"] show ?case
    by (simp only: foldl_Cons reduce_step_data data_Cons [of m ms] concat_append append_assoc)
qed

subsection \<open>The output stream as a whole\<close>

lemma drained_data:
  assumes "raw_inv options st"
  shows "concat (stdout_data (drained options st)) = seen Stdout st"
    and "concat (stderr_data (drained options st)) = seen Stderr st"
proof -
  from assms have a: "splitByLines options = Some False \<longrightarrow> stdoutCurrent st = []"
    and b: "splitByLines options = Some False \<longrightarrow> stderrCurrent st = []"
    by (simp_all add: raw_inv_def)
  show "concat (stdout_data (drained options st)) = seen Stdout st"
    by (simp add: drained_def seen_def stdout_data_append chunk_end_concat [OF a])
  show "concat (stderr_data (drained options st)) = seen Stderr st"
    by (simp add: drained_def seen_def stderr_data_append chunk_end_concat [OF b])
qed

lemma raw_inv_init: "raw_inv options mux_init"
  by (simp add: raw_inv_def mux_init_def)

lemma seen_init: "seen s mux_init = []"
  by (cases s) (simp_all add: seen_def mux_init_def)

lemma drained_all:
  assumes "failure (foldl (mux_step options) mux_init evs) = None"
  shows "concat (stdout_data (drained options (foldl (mux_step options) mux_init evs)))
           = concat (produced Stdout evs)"
    and "concat (stderr_data (drained options (foldl (mux_step options) mux_init evs)))
           = concat (produced Stderr evs)"
  using foldl_mux_step_keeps [OF assms raw_inv_init, of Stdout]
        foldl_mux_step_keeps [OF assms raw_inv_init, of Stderr]
  by (simp_all add: drained_data seen_init)

lemma getOutputStream_failed:
  assumes "failure (foldl (mux_step options) mux_init (events run)) = Some err"
  shows "terminal (getOutputStream options run) = Errored err"
  using assms by (simp add: getOutputStream_def Let_def)

lemma getOutputStream_close:
  assumes "failure (foldl (mux_step options) mux_init (events run)) = None"
  shows "terminal (getOutputStream options run) =
     (case filter isRealExit (closes run) of
        [] \<Rightarrow> Pending
      | event # _ \<Rightarrow>
          if or_isExitErrorDefault options event
          then Errored (ProcessExitError (exitCode event) (signal event)
                 (take (nat (or_default (exitErrorBufferSize options) 2000))
                    (concat (produced Stderr (events run)))) None)
          else Completed)"
  using assms
  by (simp add: getOutputStream_def Let_def accumulatedStderr_last drained_all(2)
        split: list.splits)

lemma getOutputStream_emitted:
  assumes "failure (foldl (mux_step options) mux_init (events run)) = None"
  shows "concat (stdout_data (emitted (getOutputStream options run)))
           = concat (produced Stdout (events run))"
    and "concat (stderr_data (emitted (getOutputStream options run)))
           = concat (produced Stderr (events run))"
  using assms drained_all [OF assms]
  by (simp_all add: getOutputStream_def Let_def stdout_data_append stderr_data_append
        split: list.splits)


lemma mux_step_failure_kind:
  assumes "failure st = None \<or> (\<exists>name. failure st = Some (MaxBufferExceededError name))"
  shows "failure (mux_step options st ev) = None
         \<or> (\<exists>name. failure (mux_step options st ev) = Some (MaxBufferExceededError name))"
proof (cases "failure st")
  case (Some e)
  with assms show ?thesis by (simp add: mux_step_failed)
next
  case None
  show ?thesis
  proof (cases ev)
    case (Exit e)
    with None show ?thesis by (simp add: mux_step_Exit)
  next
    case (Data s d)
    show ?thesis
    proof (cases s)
      case Stdout
      show ?thesis
      proof (cases "limitBufferSize (maxBuffer options) ''stdout'' (stdoutTotal st) d")
        case (Inr t)
        from mux_step_Stdout_ok(1) [OF None Inr] Data Stdout show ?thesis by simp
      next
        case (Inl err)
        then have "err = MaxBufferExceededError ''stdout''"
          by (auto simp: limitBufferSize_def Let_def split: option.splits if_splits)
        with mux_step_Stdout_fail [OF None Inl] Data Stdout show ?thesis by simp
      qed
    next
      case Stderr
      show ?thesis
      proof (cases "limitBufferSize (maxBuffer options) ''stderr'' (stderrTotal st) d")
        case (Inr t)
        from mux_step_Stderr_ok(1) [OF None Inr] Data Stderr show ?thesis by simp
      next
        case (Inl err)
        then have "err = MaxBufferExceededError ''stderr''"
          by (auto simp: limitBufferSize_def Let_def split: option.splits if_splits)
        with mux_step_Stderr_fail [OF None Inl] Data Stderr show ?thesis by simp
      qed
    qed
  qed
qed

lemma foldl_mux_step_failure_kind:
  "failure st = None \<or> (\<exists>name. failure st = Some (MaxBufferExceededError name)) \<Longrightarrow>
   failure (foldl (mux_step options) st evs) = None
     \<or> (\<exists>name. failure (foldl (mux_step options) st evs) = Some (MaxBufferExceededError name))"
proof (induction evs arbitrary: st)
  case Nil
  then show ?case by simp
next
  case (Cons ev evs)
  from Cons.IH [OF mux_step_failure_kind [OF Cons.prems]] show ?case by simp
qed

lemma failure_kind:
  "failure (foldl (mux_step options) mux_init evs) = None
     \<or> (\<exists>name. failure (foldl (mux_step options) mux_init evs) = Some (MaxBufferExceededError name))"
  by (rule foldl_mux_step_failure_kind) (simp add: mux_init_def)

lemma within_maxBuffer_no_failure:
  assumes "within_maxBuffer (maxBuffer options) evs"
  shows "failure (foldl (mux_step options) mux_init evs) = None"
proof (cases "maxBuffer options")
  case None
  then show ?thesis by (rule foldl_mux_step_unbounded) (simp add: mux_init_def)
next
  case (Some B)
  with assms show ?thesis
    by (intro foldl_mux_step_fits [of options B]) (simp_all add: within_maxBuffer_def mux_init_def)
qed

lemma exceeds_failure:
  assumes "maxBuffer options = Some B" and "0 \<le> B"
    and "B < int (amount Stdout evs) \<or> B < int (amount Stderr evs)"
  shows "\<exists>name. failure (foldl (mux_step options) mux_init evs) = Some (MaxBufferExceededError name)
           \<and> (name = ''stdout'' \<and> B < int (amount Stdout evs)
               \<or> name = ''stderr'' \<and> B < int (amount Stderr evs))"
  using foldl_mux_step_exceeds [of options B mux_init evs] assms
  by (simp add: mux_init_def)

lemma scan_capped: "x \<in> set (scan (\<lambda>acc d. take n (acc @ d)) a ds) \<Longrightarrow> length x \<le> n"
  by (induction ds arbitrary: a) auto

lemma takeWhileInclusive_subset: "set (takeWhileInclusive p xs) \<subseteq> set xs"
  by (induction xs) auto

lemma accumulatedStderr_capped:
  "\<forall>acc \<in> set (accumulatedStderr N ds). length acc \<le> nat N"
proof (cases "0 < N")
  case True
  show ?thesis
  proof
    fix acc assume "acc \<in> set (accumulatedStderr N ds)"
    with True have "acc \<in> set ([] # scan (\<lambda>acc d. take (nat N) (acc @ d)) [] ds)"
      using takeWhileInclusive_subset by (fastforce simp: accumulatedStderr_pos)
    then show "length acc \<le> nat N" using scan_capped [of acc "nat N" "[]" ds] by auto
  qed
next
  case False
  then show ?thesis by (simp add: accumulatedStderr_nonpos)
qed

lemma getOutputStream_error_emitted:
  assumes "failure (foldl (mux_step options) mux_init (events run)) = None"
    and "terminal (getOutputStream options run) = Errored e"
  shows "e = ProcessExitError (exitCode (hd (filter isRealExit (closes run))))
               (signal (hd (filter isRealExit (closes run))))
               (last (accumulatedStderr (or_default (exitErrorBufferSize options) 2000)
                        (stderr_data (emitted (getOutputStream options run))))) None"
  using assms
  by (auto simp: getOutputStream_def Let_def split: list.splits if_splits)

text \<open>
  C1 (as amended). When the stream of \<^verbatim>\<open>getOutputStream\<close> raises an exit error, the
  stderr attached to the error is the first \<open>N\<close> characters of all that the process
  wrote to stderr, where \<open>N\<close> is \<^verbatim>\<open>exitErrorBufferSize\<close>, or 2000 when the option is absent
  or \<open>0\<close>; no stdout is attached. That stderr is the last value of \<^verbatim>\<open>accumulatedStderr\<close>,
  whose values grow by appending (each is an initial part of the next), stay below \<open>N\<close>
  characters except for the last one, where the accumulation stops, and never hold
  more than \<open>N\<close> characters.
\<close>

theorem exit_error_stderr_is_first_bytes:
  assumes "terminal (getOutputStream options run) = Errored (ProcessExitError c s err out)"
  shows "err = take (nat (or_default (exitErrorBufferSize options) 2000))
                 (concat (produced Stderr (events run)))
       \<and> out = None
       \<and> err = last (accumulatedStderr (or_default (exitErrorBufferSize options) 2000)
                       (stderr_data (emitted (getOutputStream options run))))
       \<and> successively prefix
           (accumulatedStderr (or_default (exitErrorBufferSize options) 2000)
              (stderr_data (emitted (getOutputStream options run))))
       \<and> (\<forall>acc \<in> set (butlast (accumulatedStderr (or_default (exitErrorBufferSize options) 2000)
                                   (stderr_data (emitted (getOutputStream options run))))).
             int (length acc) < or_default (exitErrorBufferSize options) 2000)
       \<and> (\<forall>acc \<in> set (accumulatedStderr (or_default (exitErrorBufferSize options) 2000)
                          (stderr_data (emitted (getOutputStream options run)))).
             length acc \<le> nat (or_default (exitErrorBufferSize options) 2000))"
proof -
  have f: "failure (foldl (mux_step options) mux_init (events run)) = None"
  proof (rule ccontr)
    assume "failure (foldl (mux_step options) mux_init (events run)) \<noteq> None"
    with failure_kind [of options "events run"] obtain name where
      "failure (foldl (mux_step options) mux_init (events run)) = Some (MaxBufferExceededError name)"
      by blast
    from getOutputStream_failed [OF this] assms show False by simp
  qed
  from getOutputStream_close [OF f] assms
  have a: "err = take (nat (or_default (exitErrorBufferSize options) 2000))
                   (concat (produced Stderr (events run))) \<and> out = None"
    by (auto split: list.splits if_splits)
  from getOutputStream_error_emitted [OF f assms]
  have b: "err = last (accumulatedStderr (or_default (exitErrorBufferSize options) 2000)
                         (stderr_data (emitted (getOutputStream options run))))"
    by simp
  from a b show ?thesis
    using accumulatedStderr_successively accumulatedStderr_butlast accumulatedStderr_capped
    by blast
qed


lemma chunk_exitErrorBufferSize:
  "chunk_next (options\<lparr>exitErrorBufferSize := x\<rparr>) = chunk_next options"
  "chunk_end (options\<lparr>exitErrorBufferSize := x\<rparr>) = chunk_end options"
  by (simp_all add: fun_eq_iff chunk_next_def chunk_end_def)

lemma options_irrelevant_exitErrorBufferSize:
  "mux_step (options\<lparr>exitErrorBufferSize := x\<rparr>) = mux_step options"
  "drained (options\<lparr>exitErrorBufferSize := x\<rparr>) = drained options"
  "or_isExitErrorDefault (options\<lparr>exitErrorBufferSize := x\<rparr>) = or_isExitErrorDefault options"
  by (auto simp: fun_eq_iff mux_step_def drained_def or_isExitErrorDefault_def
        chunk_exitErrorBufferSize split: ProcessEvent.splits fd.splits sum.splits)

lemma or_isExitErrorDefault_maxBuffer:
  "or_isExitErrorDefault (options\<lparr>maxBuffer := x\<rparr>) = or_isExitErrorDefault options"
  by (simp add: or_isExitErrorDefault_def)

lemma observeProcess_terminal:
  "terminal (observeProcess options run) = terminal (getOutputStream options run)"
  "emitted (observeProcess options run) = emitted (getOutputStream options run)"
  by (simp_all add: observeProcess_def Let_def)

text \<open>
  With \<^verbatim>\<open>exitErrorBufferSize = 2\<close>, a process that writes \<^verbatim>\<open>"abc\n"\<close> to stderr and exits
  with code 1 gives an exit error with the stderr \<^verbatim>\<open>"ab"\<close>.
\<close>

theorem exit_error_stderr_is_first_bytes_witness:
  "terminal (getOutputStream (no_options\<lparr>exitErrorBufferSize := Some 2\<rparr>) run_abc)
     = Errored (ProcessExitError (Some 1) None ''ab'' None)
   \<and> ''ab'' = take (nat (or_default (exitErrorBufferSize (no_options\<lparr>exitErrorBufferSize := Some 2\<rparr>)) 2000))
                 (concat (produced Stderr (events run_abc)))"
proof -
  have t: "terminal (getOutputStream (no_options\<lparr>exitErrorBufferSize := Some 2\<rparr>) run_abc)
     = Errored (ProcessExitError (Some 1) None ''ab'' None)"
    by (simp add: getOutputStream_def no_options_def run_abc_def mux_init_def mux_step_def
          limitBufferSize_def chunk_next_def chunk_end_def splitStream_end_def drained_def
          isRealExit_def or_isExitErrorDefault_def isExitErrorDefault_def or_default_def
          accumulatedStderr_def slice0_def Let_def)
  from exit_error_stderr_is_first_bytes [OF t] t show ?thesis by simp
qed

text \<open>
  C1 as stated fails: in that run the last two characters of the stderr of the process
  are \<^verbatim>\<open>"c\n"\<close>, and the error carries \<^verbatim>\<open>"ab"\<close>.
\<close>

theorem exit_error_stderr_not_last_bytes_counterexample:
  "terminal (getOutputStream (no_options\<lparr>exitErrorBufferSize := Some 2\<rparr>) run_abc)
     = Errored (ProcessExitError (Some 1) None ''ab'' None)
   \<and> concat (produced Stderr (events run_abc)) = ''abc\<newline>''
   \<and> drop (length ''abc\<newline>'' - 2) ''abc\<newline>'' = ''c\<newline>''
   \<and> ''ab'' \<noteq> ''c\<newline>''"
  by (simp add: getOutputStream_def no_options_def run_abc_def mux_init_def mux_step_def
        limitBufferSize_def chunk_next_def chunk_end_def splitStream_end_def drained_def
        isRealExit_def or_isExitErrorDefault_def isExitErrorDefault_def or_default_def
        accumulatedStderr_def slice0_def Let_def)

text \<open>
  C2. With the default \<^verbatim>\<open>isExitError\<close>, for a process whose output stays within
  \<^verbatim>\<open>maxBuffer\<close> and whose first real \<^verbatim>\<open>'close'\<close> event is \<open>event\<close>: if the exit code is
  \<open>0\<close> the stream completes, the exit message being the last message; if the exit code
  is anything else (another number, or \<^verbatim>\<open>null\<close> for a process ended by a signal) the
  stream raises a \<^verbatim>\<open>ProcessExitError\<close> with the exit code and the signal of the event.
\<close>

theorem default_exit_classification:
  assumes "isExitError options = None"
    and "within_maxBuffer (maxBuffer options) (events run)"
    and "filter isRealExit (closes run) = event # rest"
  shows "(exitCode event = Some 0 \<longrightarrow>
            terminal (getOutputStream options run) = Completed
            \<and> last (emitted (getOutputStream options run)) = exit_message event)
       \<and> (exitCode event \<noteq> Some 0 \<longrightarrow>
            (\<exists>err. terminal (getOutputStream options run)
                     = Errored (ProcessExitError (exitCode event) (signal event) err None)))"
proof -
  from assms(2) have f: "failure (foldl (mux_step options) mux_init (events run)) = None"
    by (rule within_maxBuffer_no_failure)
  from assms(1) have d: "or_isExitErrorDefault options event = (exitCode event \<noteq> Some 0)"
    by (simp add: or_isExitErrorDefault_def isExitErrorDefault_def)
  from getOutputStream_close [OF f] assms(3) d
  have t: "terminal (getOutputStream options run) =
      (if exitCode event \<noteq> Some 0
       then Errored (ProcessExitError (exitCode event) (signal event)
              (take (nat (or_default (exitErrorBufferSize options) 2000))
                 (concat (produced Stderr (events run)))) None)
       else Completed)"
    by simp
  have l: "exitCode event = Some 0 \<longrightarrow>
             last (emitted (getOutputStream options run)) = exit_message event"
    using f assms(3) d by (simp add: getOutputStream_def Let_def)
  from t l show ?thesis by simp
qed

text \<open>The command of the spec with exit code 0, and with exit code 3.\<close>

theorem default_exit_classification_witness:
  "terminal (getOutputStream no_options (run_out_err (Some 0))) = Completed
   \<and> last (emitted (getOutputStream no_options (run_out_err (Some 0))))
       = exit_message \<lparr>exitCode = Some 0, signal = None\<rparr>
   \<and> (\<exists>err. terminal (getOutputStream no_options (run_out_err (Some 3)))
        = Errored (ProcessExitError (Some 3) None err None))"
proof -
  have a: "isExitError no_options = None" by (simp add: no_options_def)
  have b: "within_maxBuffer (maxBuffer no_options) (events (run_out_err c))" for c
    by (simp add: no_options_def within_maxBuffer_def)
  have c: "filter isRealExit (closes (run_out_err c)) = \<lparr>exitCode = c, signal = None\<rparr> # []" for c
    by (simp add: run_out_err_def isRealExit_def)
  from default_exit_classification [OF a b c, of "Some 0"]
       default_exit_classification [OF a b c, of "Some 3"]
  show ?thesis by simp
qed

lemma runCommandDetailed_raises:
  assumes "within_maxBuffer (Some (or_default (maxBuffer options) DEFAULT_MAX_BUFFER)) (events run)"
    and "filter isRealExit (closes run) = event # rest"
    and "or_isExitErrorDefault options event"
  shows "runCommandDetailed options run
           = Raises (ProcessExitError (exitCode event) (signal event)
                       (concat (produced Stderr (events run)))
                       (Some (concat (produced Stdout (events run)))))"
proof -
  let ?opts = "options\<lparr>maxBuffer := Some (or_default (maxBuffer options) DEFAULT_MAX_BUFFER)\<rparr>"
  from assms(1) have "within_maxBuffer (maxBuffer ?opts) (events run)" by simp
  then have f: "failure (foldl (mux_step ?opts) mux_init (events run)) = None"
    by (rule within_maxBuffer_no_failure)
  from getOutputStream_close [OF f] assms(2,3)
  have t: "terminal (observeProcess ?opts run)
             = Errored (ProcessExitError (exitCode event) (signal event)
                 (take (nat (or_default (exitErrorBufferSize ?opts) 2000))
                    (concat (produced Stderr (events run)))) None)"
    by (simp add: observeProcess_terminal or_isExitErrorDefault_maxBuffer)
  from getOutputStream_emitted [OF f]
  have e: "concat (stdout_data (emitted (observeProcess ?opts run)))
             = concat (produced Stdout (events run))"
          "concat (stderr_data (emitted (observeProcess ?opts run)))
             = concat (produced Stderr (events run))"
    by (simp_all add: observeProcess_terminal)
  show ?thesis
    unfolding runCommandDetailed_def Let_def t
    by (simp add: foldl_reduce_step e)
qed

text \<open>
  C7. When the output of the process stays within the limit that \<^verbatim>\<open>runCommandDetailed\<close>
  sets and the exit of the process counts as an error, \<^verbatim>\<open>runCommandDetailed\<close> raises a
  \<^verbatim>\<open>ProcessExitError\<close> with the exit code and signal of the process, with all that the
  process wrote to stderr as \<^verbatim>\<open>stderr\<close> and all that it wrote to stdout as \<^verbatim>\<open>stdout\<close>.
\<close>

theorem runCommandDetailed_exit_error_carries_output:
  assumes "within_maxBuffer (Some (or_default (maxBuffer options) DEFAULT_MAX_BUFFER)) (events run)"
    and "filter isRealExit (closes run) = event # rest"
    and "or_isExitErrorDefault options event"
  shows "runCommandDetailed options run
           = Raises (ProcessExitError (exitCode event) (signal event)
                       (concat (produced Stderr (events run)))
                       (Some (concat (produced Stdout (events run)))))"
  using assms by (rule runCommandDetailed_raises)

text \<open>
  The command of the spec: \<^verbatim>\<open>"out\n"\<close> on stdout, \<^verbatim>\<open>"err\n"\<close> on stderr, exit code 1.
\<close>

theorem runCommandDetailed_exit_error_carries_output_witness:
  "within_maxBuffer (Some (or_default (maxBuffer no_options) DEFAULT_MAX_BUFFER))
     (events (run_out_err (Some 1)))
   \<and> or_isExitErrorDefault no_options \<lparr>exitCode = Some 1, signal = None\<rparr>
   \<and> runCommandDetailed no_options (run_out_err (Some 1))
       = Raises (ProcessExitError (Some 1) None ''err\<newline>'' (Some ''out\<newline>''))"
proof -
  have a: "within_maxBuffer (Some (or_default (maxBuffer no_options) DEFAULT_MAX_BUFFER))
             (events (run_out_err (Some 1)))"
    by (simp add: within_maxBuffer_def no_options_def or_default_def DEFAULT_MAX_BUFFER_def
          run_out_err_def)
  have b: "filter isRealExit (closes (run_out_err (Some 1)))
             = \<lparr>exitCode = Some 1, signal = None\<rparr> # []"
    by (simp add: run_out_err_def isRealExit_def)
  have c: "or_isExitErrorDefault no_options \<lparr>exitCode = Some 1, signal = None\<rparr>"
    by (simp add: or_isExitErrorDefault_def no_options_def isExitErrorDefault_def)
  from runCommandDetailed_exit_error_carries_output [OF a b c] a c
  show ?thesis by (simp add: run_out_err_def)
qed



lemma runCommandDetailed_exceeds:
  assumes "maxBuffer options = Some B" and "B \<noteq> 0" and "0 \<le> B"
    and "B < int (amount Stdout (events run)) \<or> B < int (amount Stderr (events run))"
  shows "\<exists>name. runCommandDetailed options run = Raises (MaxBufferExceededError name)"
proof -
  from assms(1,2) have o: "options\<lparr>maxBuffer := Some (or_default (maxBuffer options) DEFAULT_MAX_BUFFER)\<rparr>
      = options" by (simp add: or_default_def)
  from exceeds_failure [OF assms(1,3,4)] obtain name where
    "failure (foldl (mux_step options) mux_init (events run)) = Some (MaxBufferExceededError name)"
    by blast
  from getOutputStream_failed [OF this]
  have "terminal (observeProcess options run) = Errored (MaxBufferExceededError name)"
    by (simp add: observeProcess_terminal)
  then have "runCommandDetailed options run = Raises (MaxBufferExceededError name)"
    unfolding runCommandDetailed_def Let_def o by simp
  then show ?thesis ..
qed





lemma utf8_length_ascii:
  "\<forall>c \<in> set s. (of_char c :: nat) < 128 \<Longrightarrow> utf8_length s = length s"
  by (induction s) (simp_all add: utf8_length_def)

lemma exits_within_Nil: "\<not> exits_within B out err []"
  by (simp add: exits_within_def)

lemma exits_within_Exit:
  "exits_within B out err (Exit e # evs)
     = (isRealExit e \<and> int out \<le> B \<and> int err \<le> B \<or> exits_within B out err evs)"
proof
  assume "exits_within B out err (Exit e # evs)"
  then obtain pre ev rest where p: "Exit e # evs = pre @ Exit ev # rest" and r: "isRealExit ev"
    and b: "int (out + amount Stdout pre) \<le> B" "int (err + amount Stderr pre) \<le> B"
    unfolding exits_within_def by blast
  show "isRealExit e \<and> int out \<le> B \<and> int err \<le> B \<or> exits_within B out err evs"
  proof (cases pre)
    case Nil
    with p r b show ?thesis by simp
  next
    case (Cons x pre')
    with p have "x = Exit e" and "evs = pre' @ Exit ev # rest" by simp_all
    with Cons r b have "exits_within B out err evs"
      unfolding exits_within_def by auto
    then show ?thesis ..
  qed
next
  assume "isRealExit e \<and> int out \<le> B \<and> int err \<le> B \<or> exits_within B out err evs"
  then show "exits_within B out err (Exit e # evs)"
  proof
    assume "isRealExit e \<and> int out \<le> B \<and> int err \<le> B"
    then have "Exit e # evs = [] @ Exit e # evs \<and> isRealExit e
        \<and> int (out + amount Stdout []) \<le> B \<and> int (err + amount Stderr []) \<le> B" by simp
    then show ?thesis unfolding exits_within_def by blast
  next
    assume "exits_within B out err evs"
    then obtain pre ev rest where "evs = pre @ Exit ev # rest" "isRealExit ev"
      "int (out + amount Stdout pre) \<le> B" "int (err + amount Stderr pre) \<le> B"
      unfolding exits_within_def by blast
    then have "Exit e # evs = (Exit e # pre) @ Exit ev # rest \<and> isRealExit ev
        \<and> int (out + amount Stdout (Exit e # pre)) \<le> B
        \<and> int (err + amount Stderr (Exit e # pre)) \<le> B" by simp
    then show ?thesis unfolding exits_within_def by blast
  qed
qed

lemma exits_within_Data:
  "exits_within B out err (Data s d # evs)
     = exits_within B (if s = Stdout then out + length d else out)
         (if s = Stderr then err + length d else err) evs"
proof
  assume "exits_within B out err (Data s d # evs)"
  then obtain pre ev rest where p: "Data s d # evs = pre @ Exit ev # rest" and r: "isRealExit ev"
    and b: "int (out + amount Stdout pre) \<le> B" "int (err + amount Stderr pre) \<le> B"
    unfolding exits_within_def by blast
  from p obtain pre' where c: "pre = Data s d # pre'" and e: "evs = pre' @ Exit ev # rest"
    by (cases pre) simp_all
  from b c have "int ((if s = Stdout then out + length d else out) + amount Stdout pre') \<le> B"
    "int ((if s = Stderr then err + length d else err) + amount Stderr pre') \<le> B"
    by (cases s; simp add: add.assoc)+
  with e r show "exits_within B (if s = Stdout then out + length d else out)
         (if s = Stderr then err + length d else err) evs"
    unfolding exits_within_def by blast
next
  assume "exits_within B (if s = Stdout then out + length d else out)
         (if s = Stderr then err + length d else err) evs"
  then obtain pre ev rest where e: "evs = pre @ Exit ev # rest" and r: "isRealExit ev"
    and b: "int ((if s = Stdout then out + length d else out) + amount Stdout pre) \<le> B"
      "int ((if s = Stderr then err + length d else err) + amount Stderr pre) \<le> B"
    unfolding exits_within_def by blast
  from b have "int (out + amount Stdout (Data s d # pre)) \<le> B"
    "int (err + amount Stderr (Data s d # pre)) \<le> B"
    by (cases s; simp add: add.assoc)+
  moreover from e have "Data s d # evs = (Data s d # pre) @ Exit ev # rest" by simp
  ultimately show "exits_within B out err (Data s d # evs)"
    using r unfolding exits_within_def by blast
qed

lemma exits_within_over:
  "B < int out \<or> B < int err \<Longrightarrow> \<not> exits_within B out err evs"
  unfolding exits_within_def by auto

lemma mux_step_Exit_finished:
  "failure st = None \<Longrightarrow>
   finished (mux_step options st (Exit e)) = (isRealExit e \<or> finished st)"
  by (simp add: mux_step_def)

lemma mux_step_Data_finished:
  "finished (mux_step options st (Data s d)) = finished st"
  by (cases s)
     (simp_all add: mux_step_def split: sum.splits prod.splits)

lemma foldl_mux_step_finished:
  "maxBuffer options = Some B \<Longrightarrow> failure st = None \<Longrightarrow>
   int (stdoutTotal st) \<le> B \<Longrightarrow> int (stderrTotal st) \<le> B \<Longrightarrow>
   finished (foldl (mux_step options) st evs)
     = (finished st \<or> exits_within B (stdoutTotal st) (stderrTotal st) evs)"
proof (induction evs arbitrary: st)
  case Nil
  then show ?case by (simp add: exits_within_Nil)
next
  case (Cons ev evs)
  let ?st1 = "mux_step options st ev"
  show ?case
  proof (cases ev)
    case (Exit e)
    have "failure ?st1 = None" "int (stdoutTotal ?st1) \<le> B" "int (stderrTotal ?st1) \<le> B"
      using Cons.prems Exit by (simp_all add: mux_step_Exit)
    from Cons.IH [OF Cons.prems(1) this]
    show ?thesis
      using Exit Cons.prems
      by (auto simp: mux_step_Exit mux_step_Exit_finished exits_within_Exit)
  next
    case (Data s d)
    show ?thesis
    proof (cases s)
      case Stdout
      show ?thesis
      proof (cases "int (stdoutTotal st + length d) \<le> B")
        case True
        then have l: "limitBufferSize (maxBuffer options) ''stdout'' (stdoutTotal st) d
                    = Inr (stdoutTotal st + length d)"
          by (simp add: Cons.prems(1) limitBufferSize_cases(2))
        note ok = mux_step_Stdout_ok(1,2,3) [OF Cons.prems(2) l]
        have "failure (mux_step options st (Data Stdout d)) = None"
          "int (stdoutTotal (mux_step options st (Data Stdout d))) \<le> B"
          "int (stderrTotal (mux_step options st (Data Stdout d))) \<le> B"
          using Cons.prems True by (simp_all add: ok)
        from Cons.IH [OF Cons.prems(1) this] show ?thesis
          using Data Stdout
          by (simp add: ok mux_step_Data_finished exits_within_Data)
      next
        case False
        then have l: "limitBufferSize (maxBuffer options) ''stdout'' (stdoutTotal st) d
                    = Inl (MaxBufferExceededError ''stdout'')"
          by (simp add: Cons.prems(1) limitBufferSize_cases(3))
        have "foldl (mux_step options) st (ev # evs)
                = st\<lparr>failure := Some (MaxBufferExceededError ''stdout'')\<rparr>"
          using Data Stdout
          by (simp add: mux_step_Stdout_fail [OF Cons.prems(2) l] foldl_mux_step_failed)
        moreover from False
        have "\<not> exits_within B (stdoutTotal st + length d) (stderrTotal st) evs"
          by (intro exits_within_over) simp
        ultimately show ?thesis using Data Stdout by (simp add: exits_within_Data)
      qed
    next
      case Stderr
      show ?thesis
      proof (cases "int (stderrTotal st + length d) \<le> B")
        case True
        then have l: "limitBufferSize (maxBuffer options) ''stderr'' (stderrTotal st) d
                    = Inr (stderrTotal st + length d)"
          by (simp add: Cons.prems(1) limitBufferSize_cases(2))
        note ok = mux_step_Stderr_ok(1,2,3) [OF Cons.prems(2) l]
        have "failure (mux_step options st (Data Stderr d)) = None"
          "int (stdoutTotal (mux_step options st (Data Stderr d))) \<le> B"
          "int (stderrTotal (mux_step options st (Data Stderr d))) \<le> B"
          using Cons.prems True by (simp_all add: ok)
        from Cons.IH [OF Cons.prems(1) this] show ?thesis
          using Data Stderr
          by (simp add: ok mux_step_Data_finished exits_within_Data)
      next
        case False
        then have l: "limitBufferSize (maxBuffer options) ''stderr'' (stderrTotal st) d
                    = Inl (MaxBufferExceededError ''stderr'')"
          by (simp add: Cons.prems(1) limitBufferSize_cases(3))
        have "foldl (mux_step options) st (ev # evs)
                = st\<lparr>failure := Some (MaxBufferExceededError ''stderr'')\<rparr>"
          using Data Stderr
          by (simp add: mux_step_Stderr_fail [OF Cons.prems(2) l] foldl_mux_step_failed)
        moreover from False
        have "\<not> exits_within B (stdoutTotal st) (stderrTotal st + length d) evs"
          by (intro exits_within_over) simp
        ultimately show ?thesis using Data Stderr by (simp add: exits_within_Data)
      qed
    qed
  qed
qed

lemma finished_exited_before_overflow:
  assumes "maxBuffer options = Some B" and "0 \<le> B"
  shows "finished (foldl (mux_step options) mux_init evs) = exited_before_overflow B evs"
  using foldl_mux_step_finished [of options B mux_init evs] assms
  by (simp add: mux_init_def exited_before_overflow_def)

text \<open>
  C6 (as amended). With \<^verbatim>\<open>maxBuffer\<close> set to \<open>B\<close> (a size, so \<open>0 \<le> B\<close>), sizes being
  counted in characters of the decoded output, as \<^verbatim>\<open>data.length\<close> counts them (for
  output in ASCII these are bytes, \<open>utf8_length_ascii\<close>): if the process writes more
  than \<open>B\<close> to stdout or to stderr, \<^verbatim>\<open>observeProcess\<close> raises a
  \<^verbatim>\<open>MaxBufferExceededError\<close> whose stream name is \<^verbatim>\<open>stdout\<close> or \<^verbatim>\<open>stderr\<close>, that stream
  having written more than \<open>B\<close>; and \<^verbatim>\<open>killProcess\<close> is called on the process, with
  \<^verbatim>\<open>killTreeWhenDone\<close> and \<^verbatim>\<open>killTreeSignal\<close>, unless the \<^verbatim>\<open>'exit'\<close> event of the process
  had arrived before either stream exceeded \<open>B\<close>, in which case nothing is called. If
  the process writes at most \<open>B\<close> to each stream, no \<^verbatim>\<open>MaxBufferExceededError\<close> is
  raised and \<^verbatim>\<open>killProcess\<close> is not called.
\<close>

theorem maxBuffer_exceeded_in_characters:
  assumes "maxBuffer options = Some B" and "0 \<le> B"
  shows "(B < int (amount Stdout (events run)) \<or> B < int (amount Stderr (events run)) \<longrightarrow>
            (\<exists>name. terminal (observeProcess options run) = Errored (MaxBufferExceededError name)
               \<and> (name = ''stdout'' \<and> B < int (amount Stdout (events run))
                   \<or> name = ''stderr'' \<and> B < int (amount Stderr (events run))))
            \<and> killProcess (observeProcess options run)
                = (if exited_before_overflow B (events run) then None
                   else Some (killTreeWhenDone options = Some True, killTreeSignal options)))
       \<and> (int (amount Stdout (events run)) \<le> B \<and> int (amount Stderr (events run)) \<le> B \<longrightarrow>
            (\<forall>name. terminal (observeProcess options run) \<noteq> Errored (MaxBufferExceededError name))
            \<and> killProcess (observeProcess options run) = None)"
proof (intro conjI impI)
  assume ex: "B < int (amount Stdout (events run)) \<or> B < int (amount Stderr (events run))"
  from exceeds_failure [OF assms ex] obtain name where
    f: "failure (foldl (mux_step options) mux_init (events run)) = Some (MaxBufferExceededError name)"
    and n: "name = ''stdout'' \<and> B < int (amount Stdout (events run))
            \<or> name = ''stderr'' \<and> B < int (amount Stderr (events run))"
    by blast
  from getOutputStream_failed [OF f]
  have t: "terminal (observeProcess options run) = Errored (MaxBufferExceededError name)"
    by (simp add: observeProcess_terminal)
  from t n show "\<exists>name. terminal (observeProcess options run) = Errored (MaxBufferExceededError name)
               \<and> (name = ''stdout'' \<and> B < int (amount Stdout (events run))
                   \<or> name = ''stderr'' \<and> B < int (amount Stderr (events run)))" by blast
  from f finished_exited_before_overflow [OF assms, of "events run"]
  show "killProcess (observeProcess options run)
                = (if exited_before_overflow B (events run) then None
                   else Some (killTreeWhenDone options = Some True, killTreeSignal options))"
    by (simp add: observeProcess_def Let_def)
next
  assume "int (amount Stdout (events run)) \<le> B \<and> int (amount Stderr (events run)) \<le> B"
  with assms(1) have "within_maxBuffer (maxBuffer options) (events run)"
    by (simp add: within_maxBuffer_def)
  then have f: "failure (foldl (mux_step options) mux_init (events run)) = None"
    by (rule within_maxBuffer_no_failure)
  from getOutputStream_close [OF f]
  show "\<forall>name. terminal (observeProcess options run) \<noteq> Errored (MaxBufferExceededError name)"
    by (simp add: observeProcess_terminal split: list.splits)
  from f show "killProcess (observeProcess options run) = None"
    by (simp add: observeProcess_def Let_def)
qed

text \<open>
  The command of the spec writes four characters to each stream and no \<^verbatim>\<open>'exit'\<close> event
  is listed before them: with \<^verbatim>\<open>maxBuffer = 3\<close> the error names stdout, which exceeds
  first, and \<^verbatim>\<open>killProcess\<close> is called with the options given; when the \<^verbatim>\<open>'exit'\<close> event
  comes first the same error is raised and nothing is called; with \<^verbatim>\<open>maxBuffer = 4\<close>
  the stream completes.
\<close>

theorem maxBuffer_exceeded_in_characters_witness:
  "terminal (observeProcess (no_options\<lparr>maxBuffer := Some 3\<rparr>) (run_out_err (Some 0)))
     = Errored (MaxBufferExceededError ''stdout'')
   \<and> \<not> exited_before_overflow 3 (events (run_out_err (Some 0)))
   \<and> killProcess (observeProcess (no_options\<lparr>maxBuffer := Some 3\<rparr>) (run_out_err (Some 0)))
       = Some (False, None)
   \<and> killProcess (observeProcess
        (no_options\<lparr>maxBuffer := Some 3, killTreeWhenDone := Some True,
                      killTreeSignal := Some ''SIGKILL''\<rparr>) (run_out_err (Some 0)))
       = Some (True, Some ''SIGKILL'')
   \<and> exited_before_overflow 3 (events run_exit_first)
   \<and> terminal (observeProcess (no_options\<lparr>maxBuffer := Some 3\<rparr>) run_exit_first)
       = Errored (MaxBufferExceededError ''stdout'')
   \<and> killProcess (observeProcess (no_options\<lparr>maxBuffer := Some 3\<rparr>) run_exit_first) = None
   \<and> terminal (observeProcess (no_options\<lparr>maxBuffer := Some 4\<rparr>) (run_out_err (Some 0)))
       = Completed
   \<and> killProcess (observeProcess (no_options\<lparr>maxBuffer := Some 4\<rparr>) (run_out_err (Some 0)))
       = None"
proof -
  have a: "\<not> exited_before_overflow 3 (events (run_out_err (Some 0)))"
    by (simp add: exited_before_overflow_def run_out_err_def exits_within_Data exits_within_Nil)
  have b: "exited_before_overflow 3 (events run_exit_first)"
    by (simp add: exited_before_overflow_def run_exit_first_def exits_within_Exit isRealExit_def)
  have am: "amount Stdout (events (run_out_err (Some 0))) = 4"
    "amount Stderr (events (run_out_err (Some 0))) = 4"
    "amount Stdout (events run_exit_first) = 4"
    by (simp_all add: run_out_err_def run_exit_first_def)
  have e: "terminal (observeProcess (no_options\<lparr>maxBuffer := Some 3\<rparr>) (run_out_err (Some 0)))
     = Errored (MaxBufferExceededError ''stdout'')"
    by (simp add: observeProcess_def getOutputStream_def no_options_def run_out_err_def
          mux_init_def mux_step_def limitBufferSize_def Let_def)
  have e2: "terminal (observeProcess (no_options\<lparr>maxBuffer := Some 3\<rparr>) run_exit_first)
     = Errored (MaxBufferExceededError ''stdout'')"
    by (simp add: observeProcess_def getOutputStream_def no_options_def run_exit_first_def
          mux_init_def mux_step_def limitBufferSize_def isRealExit_def Let_def)
  have g: "terminal (observeProcess (no_options\<lparr>maxBuffer := Some 4\<rparr>) (run_out_err (Some 0)))
     = Completed"
    by (simp add: observeProcess_def getOutputStream_def no_options_def run_out_err_def
          mux_init_def mux_step_def limitBufferSize_def chunk_next_def chunk_end_def
          splitStream_end_def drained_def isRealExit_def or_isExitErrorDefault_def
          isExitErrorDefault_def or_default_def accumulatedStderr_def slice0_def Let_def)
  from maxBuffer_exceeded_in_characters
         [of "no_options\<lparr>maxBuffer := Some 3\<rparr>" 3 "run_out_err (Some 0)"]
       maxBuffer_exceeded_in_characters
         [of "no_options\<lparr>maxBuffer := Some 3, killTreeWhenDone := Some True,
                           killTreeSignal := Some ''SIGKILL''\<rparr>" 3 "run_out_err (Some 0)"]
       maxBuffer_exceeded_in_characters
         [of "no_options\<lparr>maxBuffer := Some 3\<rparr>" 3 run_exit_first]
       maxBuffer_exceeded_in_characters
         [of "no_options\<lparr>maxBuffer := Some 4\<rparr>" 4 "run_out_err (Some 0)"]
       a b am e e2 g
  show ?thesis by (simp add: no_options_def)
qed

text \<open>
  C6 as stated fails: a process that writes six bytes to stdout, the UTF-8 encoding of
  three accented letters, stays within \<^verbatim>\<open>maxBuffer = 3\<close>, because the three characters
  are what is counted; the stream completes.
\<close>

theorem maxBuffer_counts_characters_not_bytes_counterexample:
  "maxBuffer (no_options\<lparr>maxBuffer := Some 3\<rparr>) = Some 3
   \<and> bytes_written Stdout (events run_accents) = 6
   \<and> amount Stdout (events run_accents) = 3
   \<and> terminal (observeProcess (no_options\<lparr>maxBuffer := Some 3\<rparr>) run_accents) = Completed"
  by (simp add: bytes_written_def utf8_length_def amount_def
        observeProcess_def getOutputStream_def no_options_def run_accents_def
        mux_init_def mux_step_def limitBufferSize_def chunk_next_def chunk_end_def
        splitStream_end_def drained_def isRealExit_def or_isExitErrorDefault_def
        isExitErrorDefault_def or_default_def accumulatedStderr_def slice0_def Let_def)

lemma reduce_step_exitCode:
  "exitCode' (reduce_step acc m) = (case m of exit_message e \<Rightarrow> exitCode e | _ \<Rightarrow> exitCode' acc)"
  by (cases m) (simp_all add: reduce_step_def)

lemma runCommandDetailed_emits:
  assumes "within_maxBuffer (Some (or_default (maxBuffer options) DEFAULT_MAX_BUFFER)) (events run)"
    and "filter isRealExit (closes run) = event # rest"
    and "\<not> or_isExitErrorDefault options event"
  shows "runCommandDetailed options run
           = Emits \<lparr>stdout = concat (produced Stdout (events run)),
                    stderr = concat (produced Stderr (events run)),
                    exitCode' = exitCode event\<rparr>"
proof -
  let ?opts = "options\<lparr>maxBuffer := Some (or_default (maxBuffer options) DEFAULT_MAX_BUFFER)\<rparr>"
  let ?st = "foldl (mux_step ?opts) mux_init (events run)"
  let ?acc0 = "\<lparr>stdout = [], stderr = [], exitCode' = None\<rparr>"
  from assms(1) have "within_maxBuffer (maxBuffer ?opts) (events run)" by simp
  then have f: "failure ?st = None" by (rule within_maxBuffer_no_failure)
  from assms(3) have ne: "\<not> or_isExitErrorDefault ?opts event"
    by (simp add: or_isExitErrorDefault_maxBuffer)
  from f assms(2) ne have out: "getOutputStream ?opts run
        = \<lparr>emitted = drained ?opts ?st @ [exit_message event], terminal = Completed\<rparr>"
    by (simp add: getOutputStream_def Let_def)
  let ?res = "foldl reduce_step ?acc0 (drained ?opts ?st @ [exit_message event])"
  from drained_all [OF f]
  have 1: "stdout ?res = concat (produced Stdout (events run))"
    and 2: "stderr ?res = concat (produced Stderr (events run))"
    by (simp_all add: foldl_reduce_step stdout_data_append stderr_data_append
          del: foldl_append)
  have 3: "exitCode' ?res = exitCode event"
    by (simp add: reduce_step_exitCode)
  from 1 2 3 have "?res = \<lparr>stdout = concat (produced Stdout (events run)),
                    stderr = concat (produced Stderr (events run)),
                    exitCode' = exitCode event\<rparr>"
    by (intro DetailedProcessResult.equality) simp_all
  then show ?thesis
    unfolding runCommandDetailed_def Let_def
    by (simp add: observeProcess_def out Let_def)
qed

text \<open>
  C10 (as amended). The two size options that are read with a default fall back to it
  when they are \<open>0\<close>. \<^verbatim>\<open>getOutputStream\<close> with \<^verbatim>\<open>exitErrorBufferSize = 0\<close> is
  \<^verbatim>\<open>getOutputStream\<close> without the option, and the stderr of an exit error it raises is
  the first 2000 characters of the stderr of the process, not none of them.
  \<^verbatim>\<open>runCommandDetailed\<close> and \<^verbatim>\<open>runCommand\<close> with \<^verbatim>\<open>maxBuffer = 0\<close> are the same without
  the option; the limit is 100 * 1024 * 1024: \<^verbatim>\<open>runCommandDetailed\<close> raises a
  \<^verbatim>\<open>MaxBufferExceededError\<close> when a stream of the process exceeds it, and when both
  streams stay within it, it raises none and, at the first real \<^verbatim>\<open>'close'\<close> event,
  raises the exit error or sends the result, either with all the output of the process.
\<close>

theorem zero_size_options_fall_back:
  "getOutputStream (options\<lparr>exitErrorBufferSize := Some 0\<rparr>) run
     = getOutputStream (options\<lparr>exitErrorBufferSize := None\<rparr>) run
   \<and> (terminal (getOutputStream (options\<lparr>exitErrorBufferSize := Some 0\<rparr>) run)
         = Errored (ProcessExitError c s err out) \<longrightarrow>
       err = take 2000 (concat (produced Stderr (events run))))
   \<and> runCommandDetailed (options\<lparr>maxBuffer := Some 0\<rparr>) run
       = runCommandDetailed (options\<lparr>maxBuffer := None\<rparr>) run
   \<and> runCommand (options\<lparr>maxBuffer := Some 0\<rparr>) run
       = runCommand (options\<lparr>maxBuffer := None\<rparr>) run
   \<and> (100 * 1024 * 1024 < int (amount Stdout (events run))
        \<or> 100 * 1024 * 1024 < int (amount Stderr (events run)) \<longrightarrow>
       (\<exists>name. runCommandDetailed (options\<lparr>maxBuffer := Some 0\<rparr>) run
                 = Raises (MaxBufferExceededError name)))
   \<and> (int (amount Stdout (events run)) \<le> 100 * 1024 * 1024
        \<and> int (amount Stderr (events run)) \<le> 100 * 1024 * 1024 \<longrightarrow>
       (\<forall>name. runCommandDetailed (options\<lparr>maxBuffer := Some 0\<rparr>) run
                 \<noteq> Raises (MaxBufferExceededError name))
       \<and> (\<forall>event rest. filter isRealExit (closes run) = event # rest \<longrightarrow>
            runCommandDetailed (options\<lparr>maxBuffer := Some 0\<rparr>) run
              = (if or_isExitErrorDefault options event
                 then Raises (ProcessExitError (exitCode event) (signal event)
                        (concat (produced Stderr (events run)))
                        (Some (concat (produced Stdout (events run)))))
                 else Emits \<lparr>stdout = concat (produced Stdout (events run)),
                             stderr = concat (produced Stderr (events run)),
                             exitCode' = exitCode event\<rparr>)))"
proof -
  let ?o0 = "options\<lparr>maxBuffer := Some 0\<rparr>"
  let ?oD = "options\<lparr>maxBuffer := Some DEFAULT_MAX_BUFFER\<rparr>"
  have d: "DEFAULT_MAX_BUFFER = 100 * 1024 * 1024" by (simp add: DEFAULT_MAX_BUFFER_def)
  have od: "or_default (maxBuffer ?o0) DEFAULT_MAX_BUFFER = 100 * 1024 * 1024"
    by (simp add: or_default_def d)
  have a: "getOutputStream (options\<lparr>exitErrorBufferSize := Some 0\<rparr>) run
     = getOutputStream (options\<lparr>exitErrorBufferSize := None\<rparr>) run"
    by (simp add: getOutputStream_def options_irrelevant_exitErrorBufferSize or_default_def
          Let_def split: option.splits list.splits)
  have b: "terminal (getOutputStream (options\<lparr>exitErrorBufferSize := Some 0\<rparr>) run)
         = Errored (ProcessExitError c s err out) \<longrightarrow>
       err = take 2000 (concat (produced Stderr (events run)))"
  proof
    let ?oe = "options\<lparr>exitErrorBufferSize := Some 0\<rparr>"
    assume t: "terminal (getOutputStream ?oe run) = Errored (ProcessExitError c s err out)"
    have f: "failure (foldl (mux_step ?oe) mux_init (events run)) = None"
    proof (rule ccontr)
      assume "failure (foldl (mux_step ?oe) mux_init (events run)) \<noteq> None"
      with failure_kind [of ?oe "events run"] obtain name where
        "failure (foldl (mux_step ?oe) mux_init (events run)) = Some (MaxBufferExceededError name)"
        by blast
      from getOutputStream_failed [OF this] t show False by simp
    qed
    from getOutputStream_close [OF f] t
    show "err = take 2000 (concat (produced Stderr (events run)))"
      by (auto simp: or_default_def split: list.splits if_splits)
  qed
  have c: "runCommandDetailed ?o0 run = runCommandDetailed (options\<lparr>maxBuffer := None\<rparr>) run"
    by (simp add: runCommandDetailed_def or_default_def)
  have cD: "runCommandDetailed ?o0 run = runCommandDetailed ?oD run"
    by (simp add: runCommandDetailed_def or_default_def DEFAULT_MAX_BUFFER_def)
  have e: "100 * 1024 * 1024 < int (amount Stdout (events run))
        \<or> 100 * 1024 * 1024 < int (amount Stderr (events run)) \<longrightarrow>
       (\<exists>name. runCommandDetailed ?o0 run = Raises (MaxBufferExceededError name))"
  proof
    assume "100 * 1024 * 1024 < int (amount Stdout (events run))
        \<or> 100 * 1024 * 1024 < int (amount Stderr (events run))"
    then have "DEFAULT_MAX_BUFFER < int (amount Stdout (events run))
            \<or> DEFAULT_MAX_BUFFER < int (amount Stderr (events run))" by (simp only: d)
    from runCommandDetailed_exceeds [of ?oD DEFAULT_MAX_BUFFER run, OF _ _ _ this]
    show "\<exists>name. runCommandDetailed ?o0 run = Raises (MaxBufferExceededError name)"
      by (auto simp: d cD)
  qed
  have g: "int (amount Stdout (events run)) \<le> 100 * 1024 * 1024
        \<and> int (amount Stderr (events run)) \<le> 100 * 1024 * 1024 \<longrightarrow>
       (\<forall>name. runCommandDetailed ?o0 run \<noteq> Raises (MaxBufferExceededError name))
       \<and> (\<forall>event rest. filter isRealExit (closes run) = event # rest \<longrightarrow>
            runCommandDetailed ?o0 run
              = (if or_isExitErrorDefault options event
                 then Raises (ProcessExitError (exitCode event) (signal event)
                        (concat (produced Stderr (events run)))
                        (Some (concat (produced Stdout (events run)))))
                 else Emits \<lparr>stdout = concat (produced Stdout (events run)),
                             stderr = concat (produced Stderr (events run)),
                             exitCode' = exitCode event\<rparr>))"
  proof (intro impI conjI allI)
    assume w: "int (amount Stdout (events run)) \<le> 100 * 1024 * 1024
        \<and> int (amount Stderr (events run)) \<le> 100 * 1024 * 1024"
    then have wm: "within_maxBuffer (Some (or_default (maxBuffer ?o0) DEFAULT_MAX_BUFFER)) (events run)"
      by (simp only: od) (simp add: within_maxBuffer_def)
    { fix name
      let ?opts = "?o0\<lparr>maxBuffer := Some (or_default (maxBuffer ?o0) DEFAULT_MAX_BUFFER)\<rparr>"
      from wm have "within_maxBuffer (maxBuffer ?opts) (events run)" by simp
      then have f: "failure (foldl (mux_step ?opts) mux_init (events run)) = None"
        by (rule within_maxBuffer_no_failure)
      from getOutputStream_close [OF f]
      have "terminal (observeProcess ?opts run) \<noteq> Errored (MaxBufferExceededError name')" for name'
        by (simp add: observeProcess_terminal split: list.splits)
      then show "runCommandDetailed ?o0 run \<noteq> Raises (MaxBufferExceededError name)"
        unfolding runCommandDetailed_def Let_def
        by (auto split: Terminal.splits ProcessError.splits) }
    { fix event rest
      assume cl: "filter isRealExit (closes run) = event # rest"
      have oi: "or_isExitErrorDefault ?o0 event = or_isExitErrorDefault options event"
        by (simp add: or_isExitErrorDefault_maxBuffer)
      show "runCommandDetailed ?o0 run
              = (if or_isExitErrorDefault options event
                 then Raises (ProcessExitError (exitCode event) (signal event)
                        (concat (produced Stderr (events run)))
                        (Some (concat (produced Stdout (events run)))))
                 else Emits \<lparr>stdout = concat (produced Stdout (events run)),
                             stderr = concat (produced Stderr (events run)),
                             exitCode' = exitCode event\<rparr>)"
      proof (cases "or_isExitErrorDefault options event")
        case True
        with oi have "or_isExitErrorDefault ?o0 event" by simp
        from runCommandDetailed_raises [OF wm cl this] True show ?thesis by simp
      next
        case False
        with oi have "\<not> or_isExitErrorDefault ?o0 event" by simp
        from runCommandDetailed_emits [OF wm cl this] False show ?thesis by simp
      qed }
  qed
  from c have c': "runCommand ?o0 run = runCommand (options\<lparr>maxBuffer := None\<rparr>) run"
    by (simp add: runCommand_def)
  from a b c c' e g show ?thesis by (intro conjI)
qed

text \<open>
  With \<^verbatim>\<open>exitErrorBufferSize = 0\<close>, 2001 letters on stderr and exit code 1 give an exit
  error with 2000 letters. With \<^verbatim>\<open>maxBuffer = 0\<close>, \<^verbatim>\<open>runCommandDetailed\<close> raises the
  error for stdout on one byte more than 100 MiB, and sends the output of the command
  of the spec when it exits with code 0.
\<close>

theorem zero_size_options_fall_back_witness:
  "length (concat (produced Stderr (events run_long_stderr))) = 2001
   \<and> terminal (getOutputStream (no_options\<lparr>exitErrorBufferSize := Some 0\<rparr>) run_long_stderr)
       = Errored (ProcessExitError (Some 1) None (replicate 2000 (CHR ''x'')) None)
   \<and> 100 * 1024 * 1024 < int (amount Stdout (events run_large))
   \<and> runCommandDetailed (no_options\<lparr>maxBuffer := Some 0\<rparr>) run_large
       = Raises (MaxBufferExceededError ''stdout'')
   \<and> int (amount Stdout (events (run_out_err (Some 0)))) \<le> 100 * 1024 * 1024
   \<and> int (amount Stderr (events (run_out_err (Some 0)))) \<le> 100 * 1024 * 1024
   \<and> runCommandDetailed (no_options\<lparr>maxBuffer := Some 0\<rparr>) (run_out_err (Some 0))
       = Emits \<lparr>stdout = ''out\<newline>'', stderr = ''err\<newline>'', exitCode' = Some 0\<rparr>"
proof -
  let ?oe = "no_options\<lparr>exitErrorBufferSize := Some 0\<rparr>"
  let ?o0 = "no_options\<lparr>maxBuffer := Some 0\<rparr>"
  note fb = zero_size_options_fall_back
  have l: "length (concat (produced Stderr (events run_long_stderr))) = 2001"
    by (simp add: run_long_stderr_def)
  have "maxBuffer ?oe = None" by (simp add: no_options_def)
  then have "failure (foldl (mux_step ?oe) mux_init (events run_long_stderr)) = None"
    by (rule foldl_mux_step_unbounded) (simp add: mux_init_def)
  from getOutputStream_close [OF this]
  have t: "terminal (getOutputStream ?oe run_long_stderr)
       = Errored (ProcessExitError (Some 1) None
           (take (nat (or_default (exitErrorBufferSize ?oe) 2000))
              (concat (produced Stderr (events run_long_stderr)))) None)"
    by (simp add: run_long_stderr_def isRealExit_def or_isExitErrorDefault_def no_options_def
          isExitErrorDefault_def)
  from fb [of no_options run_long_stderr "Some 1" None
              "take (nat (or_default (exitErrorBufferSize ?oe) 2000))
                 (concat (produced Stderr (events run_long_stderr)))" None] t
  have "take (nat (or_default (exitErrorBufferSize ?oe) 2000))
          (concat (produced Stderr (events run_long_stderr)))
        = take 2000 (concat (produced Stderr (events run_long_stderr)))"
    by blast
  with t have t': "terminal (getOutputStream ?oe run_long_stderr)
       = Errored (ProcessExitError (Some 1) None (replicate 2000 (CHR ''x'')) None)"
    by (simp add: run_long_stderr_def)
  have b: "100 * 1024 * 1024 < int (amount Stdout (events run_large))"
    "\<not> 100 * 1024 * 1024 < int (amount Stderr (events run_large))"
    by (simp_all add: run_large_def)
  have r: "runCommandDetailed ?o0 run_large = Raises (MaxBufferExceededError ''stdout'')"
  proof -
    have "maxBuffer (?o0\<lparr>maxBuffer := Some DEFAULT_MAX_BUFFER\<rparr>) = Some DEFAULT_MAX_BUFFER"
      by simp
    from exceeds_failure [OF this, of "events run_large"] b
    have "failure (foldl (mux_step (?o0\<lparr>maxBuffer := Some DEFAULT_MAX_BUFFER\<rparr>)) mux_init
                     (events run_large)) = Some (MaxBufferExceededError ''stdout'')"
      by (auto simp: DEFAULT_MAX_BUFFER_def)
    from getOutputStream_failed [OF this] show ?thesis
      by (simp add: runCommandDetailed_def or_default_def observeProcess_terminal)
  qed
  have w: "int (amount Stdout (events (run_out_err (Some 0)))) \<le> 100 * 1024 * 1024"
    "int (amount Stderr (events (run_out_err (Some 0)))) \<le> 100 * 1024 * 1024"
    by (simp_all add: run_out_err_def)
  have cl: "filter isRealExit (closes (run_out_err (Some 0)))
              = \<lparr>exitCode = Some 0, signal = None\<rparr> # []"
    by (simp add: run_out_err_def isRealExit_def)
  have ne: "\<not> or_isExitErrorDefault no_options \<lparr>exitCode = Some 0, signal = None\<rparr>"
    by (simp add: or_isExitErrorDefault_def no_options_def isExitErrorDefault_def)
  from fb [where options = no_options and run = "run_out_err (Some 0)"
             and c = None and s = None and err = "[]" and out = None] w
  have "\<forall>event rest. filter isRealExit (closes (run_out_err (Some 0))) = event # rest \<longrightarrow>
            runCommandDetailed ?o0 (run_out_err (Some 0))
              = (if or_isExitErrorDefault no_options event
                 then Raises (ProcessExitError (exitCode event) (signal event)
                        (concat (produced Stderr (events (run_out_err (Some 0)))))
                        (Some (concat (produced Stdout (events (run_out_err (Some 0)))))))
                 else Emits \<lparr>stdout = concat (produced Stdout (events (run_out_err (Some 0)))),
                             stderr = concat (produced Stderr (events (run_out_err (Some 0)))),
                             exitCode' = exitCode event\<rparr>)"
    by blast
  with cl ne
  have em: "runCommandDetailed ?o0 (run_out_err (Some 0))
       = Emits \<lparr>stdout = concat (produced Stdout (events (run_out_err (Some 0)))),
                 stderr = concat (produced Stderr (events (run_out_err (Some 0)))),
                 exitCode' = Some 0\<rparr>"
    by fastforce
  then have em': "runCommandDetailed ?o0 (run_out_err (Some 0))
       = Emits \<lparr>stdout = ''out\<newline>'', stderr = ''err\<newline>'', exitCode' = Some 0\<rparr>"
    by (simp add: run_out_err_def)
  from l t' b(1) r w em' show ?thesis by (intro conjI)
qed

text \<open>
  C10 as stated fails for \<^verbatim>\<open>maxBuffer\<close> given to \<^verbatim>\<open>getOutputStream\<close> or \<^verbatim>\<open>observeProcess\<close>:
  there \<open>0\<close> is a limit of \<open>0\<close>, and the four characters that the command of the spec
  writes to stdout exceed it, while without the option the stream completes.
\<close>

theorem maxBuffer_zero_is_a_limit_counterexample:
  "terminal (getOutputStream (no_options\<lparr>maxBuffer := Some 0\<rparr>) (run_out_err (Some 0)))
     = Errored (MaxBufferExceededError ''stdout'')
   \<and> terminal (observeProcess (no_options\<lparr>maxBuffer := Some 0\<rparr>) (run_out_err (Some 0)))
     = Errored (MaxBufferExceededError ''stdout'')
   \<and> terminal (getOutputStream (no_options\<lparr>maxBuffer := None\<rparr>) (run_out_err (Some 0)))
     = Completed
   \<and> terminal (observeProcess (no_options\<lparr>maxBuffer := None\<rparr>) (run_out_err (Some 0)))
     = Completed
   \<and> int (amount Stdout (events (run_out_err (Some 0)))) \<le> DEFAULT_MAX_BUFFER"
  by (simp add: observeProcess_def getOutputStream_def no_options_def run_out_err_def
        mux_init_def mux_step_def limitBufferSize_def chunk_next_def chunk_end_def
        splitStream_end_def drained_def isRealExit_def or_isExitErrorDefault_def
        isExitErrorDefault_def or_default_def accumulatedStderr_def slice0_def Let_def
        DEFAULT_MAX_BUFFER_def)

end
